theory Spec2Isabelle
  imports Main "HOL-Library.Word" "HOL-Library.Multiset"
begin

section \<open>Strings and values of the script\<close>

text \<open>
  The development embeds \<^verbatim>\<open>scripts/check-sources.js\<close>, the GET-only health check of
  the video sources listed in \<^verbatim>\<open>config.json\<close>.

  A JavaScript string is a sequence of 16-bit code units; \<open>length\<close>, \<open>trim\<close>,
  \<open>includes\<close> and \<open>startsWith\<close> all work on code units. \<open>js\<close> turns a literal of
  this theory into such a string.
\<close>

type_synonym jschar = "16 word"
type_synonym jsstring = "jschar list"

definition cu :: "char \<Rightarrow> jschar" where
  "cu c = of_char c"

definition js :: "string \<Rightarrow> jsstring" where
  "js s = map cu s"

text \<open>
  \<open>String.prototype.trim\<close> removes the code units of WhiteSpace and LineTerminator
  (ECMA-262, 12.2 and 12.3) from both ends.
\<close>

definition js_whitespace :: "jschar \<Rightarrow> bool" where
  "js_whitespace c \<longleftrightarrow>
     c = 0x0009 \<or> c = 0x000A \<or> c = 0x000B \<or> c = 0x000C \<or> c = 0x000D \<or> c = 0x0020 \<or>
     c = 0x00A0 \<or> c = 0x1680 \<or> (0x2000 \<le> c \<and> c \<le> 0x200A) \<or> c = 0x2028 \<or>
     c = 0x2029 \<or> c = 0x202F \<or> c = 0x205F \<or> c = 0x3000 \<or> c = 0xFEFF"

definition js_trim :: "jsstring \<Rightarrow> jsstring" where
  "js_trim s = rev (dropWhile js_whitespace (rev (dropWhile js_whitespace s)))"

definition js_includes :: "jsstring \<Rightarrow> jschar \<Rightarrow> bool" where
  \<comment> \<open>\<open>s.includes(c)\<close> for a search string of one code unit\<close>
  "js_includes s c \<longleftrightarrow> c \<in> set s"

definition startsWith :: "jsstring \<Rightarrow> jschar \<Rightarrow> bool" where
  \<comment> \<open>\<open>s.startsWith(c)\<close> for a search string of one code unit\<close>
  "startsWith s c \<longleftrightarrow> (case s of [] \<Rightarrow> False | d # _ \<Rightarrow> d = c)"

text \<open>The decimal numeral of a natural number, as a template literal prints an integer.\<close>

definition digit :: "nat \<Rightarrow> jschar" where
  "digit d = of_nat (48 + d)"

function decimal :: "nat \<Rightarrow> jsstring" where
  "decimal n = (if n < 10 then [digit n] else decimal (n div 10) @ [digit (n mod 10)])"
  by pat_completeness auto
termination
  by (relation "measure id") auto

declare decimal.simps [simp del]

text \<open>
  The values \<open>JSON.parse\<close> can produce. A number is kept as the text \<open>String\<close> gives
  for it, which is all the script can observe of a number (besides being zero, the
  number whose text is \<open>0\<close>; JSON has no NaN). An object is the list of its properties in
  enumeration order; a property name occurring twice in such a list stands for the first
  binding, as a JavaScript object has one property of each name.
\<close>

datatype json =
    JNull
  | JBool bool
  | JNum jsstring
  | JStr jsstring
  | JArr "json list"
  | JObj "(jsstring \<times> json) list"

fun truthy :: "json \<Rightarrow> bool" where
  "truthy JNull = False"
| "truthy (JBool b) = b"
| "truthy (JNum n) = (n \<noteq> js ''0'')"
| "truthy (JStr s) = (s \<noteq> [])"
| "truthy (JArr _) = True"
| "truthy (JObj _) = True"

text \<open>
  \<open>property v p\<close> is the property read \<open>v.p\<close> for the names the script reads (\<open>api_site\<close>,
  \<open>api\<close>, \<open>name\<close>, \<open>list\<close>, \<open>data\<close>, \<open>code\<close>, \<open>total\<close>), none of which is inherited from
  a built-in prototype: \<open>None\<close> is \<open>undefined\<close>. Reading a property of \<open>null\<close> raises a
  TypeError; the callers below test for \<open>null\<close> where the script can get there.
\<close>

fun property :: "json \<Rightarrow> jsstring \<Rightarrow> json option" where
  "property (JObj kvs) p = map_of kvs p"
| "property _ p = None"

definition truthy_opt :: "json option \<Rightarrow> bool" where
  "truthy_opt v = (case v of None \<Rightarrow> False | Some x \<Rightarrow> truthy x)"

definition isArray :: "json option \<Rightarrow> bool" where
  "isArray v = (case v of Some (JArr _) \<Rightarrow> True | _ \<Rightarrow> False)"

fun join :: "jsstring \<Rightarrow> jsstring list \<Rightarrow> jsstring" where
  "join sep [] = []"
| "join sep [x] = x"
| "join sep (x # y # ys) = x @ sep @ join sep (y # ys)"

fun js_String :: "json \<Rightarrow> jsstring" where
  "js_String JNull = js ''null''"
| "js_String (JBool b) = (if b then js ''true'' else js ''false'')"
| "js_String (JNum n) = n"
| "js_String (JStr s) = s"
| "js_String (JArr xs) =
     join (js '','') (map (\<lambda>x. if x = JNull then [] else js_String x) xs)"
| "js_String (JObj _) = js ''[object Object]''"

fun own_props :: "(jsstring \<times> json) list \<Rightarrow> (jsstring \<times> json) list" where
  "own_props [] = []"
| "own_props ((k, v) # kvs) = (k, v) # own_props (filter (\<lambda>kv. fst kv \<noteq> k) kvs)"

fun index_entries :: "nat \<Rightarrow> json list \<Rightarrow> (jsstring \<times> json) list" where
  "index_entries i [] = []"
| "index_entries i (x # xs) = (decimal i, x) # index_entries (Suc i) xs"

text \<open>
  \<open>Object.entries\<close>: the own enumerable string-keyed properties. \<open>None\<close> is the
  TypeError raised for \<open>null\<close>.
\<close>

fun Object_entries :: "json \<Rightarrow> (jsstring \<times> json) list option" where
  "Object_entries JNull = None"
| "Object_entries (JBool _) = Some []"
| "Object_entries (JNum _) = Some []"
| "Object_entries (JStr s) = Some (index_entries 0 (map (\<lambda>c. JStr [c]) s))"
| "Object_entries (JArr xs) = Some (index_entries 0 xs)"
| "Object_entries (JObj kvs) = Some (own_props kvs)"


section \<open>JSON texts\<close>

text \<open>
  \<open>JSON.parse\<close> belongs to the platform, not to the script. The functions of the script
  that call it take it as the parameter \<open>parse\<close>, with \<open>None\<close> for the SyntaxError it
  raises, and the theorems about them hold for every \<open>parse\<close>. For the concrete texts of
  the specification this section gives a reference parser of the JSON grammar (ECMA-404):
  a lexer, then a stack automaton over the tokens.
\<close>

datatype token =
    LBrace | RBrace | LBracket | RBracket | Colon | Comma
  | TString jsstring | TNumber jsstring | TTrue | TFalse | TNull

definition json_ws :: "jschar \<Rightarrow> bool" where
  "json_ws c \<longleftrightarrow> c = 0x20 \<or> c = 0x09 \<or> c = 0x0A \<or> c = 0x0D"

definition is_digit :: "jschar \<Rightarrow> bool" where
  "is_digit c \<longleftrightarrow> 0x30 \<le> c \<and> c \<le> 0x39"

definition hex_value :: "jschar \<Rightarrow> jschar option" where
  "hex_value c =
     (if 0x30 \<le> c \<and> c \<le> 0x39 then Some (c - 0x30)
      else if 0x41 \<le> c \<and> c \<le> 0x46 then Some (c - 0x37)
      else if 0x61 \<le> c \<and> c \<le> 0x66 then Some (c - 0x57)
      else None)"

definition hex4 :: "jschar \<Rightarrow> jschar \<Rightarrow> jschar \<Rightarrow> jschar \<Rightarrow> jschar option" where
  "hex4 a b c d =
     (case (hex_value a, hex_value b, hex_value c, hex_value d) of
        (Some w, Some x, Some y, Some z) \<Rightarrow> Some (((w * 16 + x) * 16 + y) * 16 + z)
      | _ \<Rightarrow> None)"

definition unescape :: "jschar \<Rightarrow> jschar option" where
  "unescape e =
     (if e = cu CHR ''\"'' \<or> e = cu CHR 0x5C \<or> e = cu CHR ''/'' then Some e
      else if e = cu CHR ''b'' then Some 0x08
      else if e = cu CHR ''f'' then Some 0x0C
      else if e = cu CHR ''n'' then Some 0x0A
      else if e = cu CHR ''r'' then Some 0x0D
      else if e = cu CHR ''t'' then Some 0x09
      else None)"

text \<open>The characters of a string literal after its opening quote, and what follows it.\<close>

fun lex_string :: "jsstring \<Rightarrow> (jsstring \<times> jsstring) option" where
  "lex_string [] = None"
| "lex_string (c # r) =
     (if c = cu CHR ''\"'' then Some ([], r)
      else if c = cu CHR 0x5C then
        (case r of
           [] \<Rightarrow> None
         | e # r1 \<Rightarrow>
             if e = cu CHR ''u'' then
               (case r1 of
                  h1 # h2 # h3 # h4 # r2 \<Rightarrow>
                    (case hex4 h1 h2 h3 h4 of
                       None \<Rightarrow> None
                     | Some u \<Rightarrow> map_option (\<lambda>(s, rest). (u # s, rest)) (lex_string r2))
                | _ \<Rightarrow> None)
             else
               (case unescape e of
                  None \<Rightarrow> None
                | Some u \<Rightarrow> map_option (\<lambda>(s, rest). (u # s, rest)) (lex_string r1)))
      else if c < 0x20 then None
      else map_option (\<lambda>(s, rest). (c # s, rest)) (lex_string r))"

text \<open>
  A number literal: an optional minus, an integer part without a leading zero, an
  optional fraction, an optional exponent. Each function returns the characters it has
  read and the rest of the input.
\<close>

definition lex_digits :: "jsstring \<Rightarrow> (jsstring \<times> jsstring) option" where
  "lex_digits s =
     (if takeWhile is_digit s = [] then None
      else Some (takeWhile is_digit s, dropWhile is_digit s))"

definition lex_int :: "jsstring \<Rightarrow> (jsstring \<times> jsstring) option" where
  "lex_int s =
     (case lex_digits s of
        None \<Rightarrow> None
      | Some (ip, rest) \<Rightarrow>
          if 1 < length ip \<and> hd ip = cu CHR ''0'' then None else Some (ip, rest))"

definition lex_frac :: "jsstring \<Rightarrow> (jsstring \<times> jsstring) option" where
  "lex_frac s =
     (case s of
        [] \<Rightarrow> Some ([], s)
      | c # r \<Rightarrow>
          if c = cu CHR ''.'' then
            (case lex_digits r of None \<Rightarrow> None | Some (fd, rest) \<Rightarrow> Some (c # fd, rest))
          else Some ([], s))"

definition lex_sign :: "jsstring \<Rightarrow> jsstring \<times> jsstring" where
  "lex_sign s =
     (case s of
        [] \<Rightarrow> ([], s)
      | c # r \<Rightarrow> if c = cu CHR ''+'' \<or> c = cu CHR ''-'' then ([c], r) else ([], s))"

definition lex_exp :: "jsstring \<Rightarrow> (jsstring \<times> jsstring) option" where
  "lex_exp s =
     (case s of
        [] \<Rightarrow> Some ([], s)
      | c # r \<Rightarrow>
          if c = cu CHR ''e'' \<or> c = cu CHR ''E'' then
            (case lex_sign r of
               (sg, r1) \<Rightarrow>
                 (case lex_digits r1 of
                    None \<Rightarrow> None
                  | Some (ed, rest) \<Rightarrow> Some (c # sg @ ed, rest)))
          else Some ([], s))"

definition lex_minus :: "jsstring \<Rightarrow> jsstring \<times> jsstring" where
  "lex_minus s =
     (case s of
        [] \<Rightarrow> ([], s)
      | c # r \<Rightarrow> if c = cu CHR ''-'' then ([c], r) else ([], s))"

definition lex_number :: "jsstring \<Rightarrow> (jsstring \<times> jsstring) option" where
  "lex_number s =
     (case lex_minus s of
        (sg, s1) \<Rightarrow>
          (case lex_int s1 of
             None \<Rightarrow> None
           | Some (ip, s2) \<Rightarrow>
               (case lex_frac s2 of
                  None \<Rightarrow> None
                | Some (fr, s3) \<Rightarrow>
                    (case lex_exp s3 of
                       None \<Rightarrow> None
                     | Some (ex, s4) \<Rightarrow> Some (sg @ ip @ fr @ ex, s4)))))"

definition next_token :: "(jsstring \<Rightarrow> jsstring) \<Rightarrow> jsstring \<Rightarrow> (token \<times> jsstring) option" where
  "next_token num s =
     (case s of
        [] \<Rightarrow> None
      | c # r \<Rightarrow>
          if c = cu CHR ''{'' then Some (LBrace, r)
          else if c = cu CHR ''}'' then Some (RBrace, r)
          else if c = cu CHR ''['' then Some (LBracket, r)
          else if c = cu CHR '']'' then Some (RBracket, r)
          else if c = cu CHR '':'' then Some (Colon, r)
          else if c = cu CHR '','' then Some (Comma, r)
          else if c = cu CHR ''\"'' then
            (case lex_string r of None \<Rightarrow> None | Some (str, rest) \<Rightarrow> Some (TString str, rest))
          else if take 4 s = js ''true'' then Some (TTrue, drop 4 s)
          else if take 5 s = js ''false'' then Some (TFalse, drop 5 s)
          else if take 4 s = js ''null'' then Some (TNull, drop 4 s)
          else
            (case lex_number s of
               None \<Rightarrow> None
             | Some (lexeme, rest) \<Rightarrow> Some (TNumber (num lexeme), rest)))"

lemma lex_string_shorter: "lex_string s = Some (str, rest) \<Longrightarrow> length rest < length s"
proof (induction s arbitrary: str rest rule: lex_string.induct)
  case 1
  then show ?case by simp
next
  case (2 c r)
  then show ?case
    by (fastforce split: if_splits list.splits option.splits)
qed

lemma lex_digits_shorter: "lex_digits s = Some (ds, rest) \<Longrightarrow> length rest < length s"
proof -
  assume a: "lex_digits s = Some (ds, rest)"
  then have "takeWhile is_digit s \<noteq> []" and "rest = dropWhile is_digit s"
    by (auto simp: lex_digits_def split: if_splits)
  moreover have "length (takeWhile is_digit s) + length (dropWhile is_digit s) = length s"
    by (metis length_append takeWhile_dropWhile_id)
  ultimately show ?thesis by (cases "takeWhile is_digit s") auto
qed

lemma lex_int_shorter: "lex_int s = Some (ip, rest) \<Longrightarrow> length rest < length s"
  by (auto simp: lex_int_def split: option.splits if_splits dest: lex_digits_shorter)

lemma lex_frac_shorter: "lex_frac s = Some (fr, rest) \<Longrightarrow> length rest \<le> length s"
  by (auto simp: lex_frac_def split: list.splits option.splits if_splits
           dest!: lex_digits_shorter)

lemma lex_sign_shorter: "lex_sign s = (sg, rest) \<Longrightarrow> length rest \<le> length s"
  by (auto simp: lex_sign_def split: list.splits if_splits)

lemma lex_exp_shorter: "lex_exp s = Some (ex, rest) \<Longrightarrow> length rest \<le> length s"
  by (auto simp: lex_exp_def split: list.splits option.splits if_splits prod.splits
           dest!: lex_digits_shorter lex_sign_shorter)

lemma lex_minus_shorter: "lex_minus s = (sg, rest) \<Longrightarrow> length rest \<le> length s"
  by (auto simp: lex_minus_def split: list.splits if_splits)

lemma lex_number_shorter: "lex_number s = Some (lexeme, rest) \<Longrightarrow> length rest < length s"
proof -
  assume "lex_number s = Some (lexeme, rest)"
  then obtain sg s1 ip s2 fr s3 ex where
    "lex_minus s = (sg, s1)" "lex_int s1 = Some (ip, s2)" "lex_frac s2 = Some (fr, s3)"
    "lex_exp s3 = Some (ex, rest)"
    by (auto simp: lex_number_def split: prod.splits option.splits)
  then show ?thesis
    using lex_minus_shorter [of s sg s1] lex_int_shorter [of s1 ip s2]
      lex_frac_shorter [of s2 fr s3] lex_exp_shorter [of s3 ex rest]
    by linarith
qed

lemma next_token_shorter: "next_token num s = Some (t, rest) \<Longrightarrow> length rest < length s"
  by (auto simp: next_token_def split: list.splits if_splits option.splits
           dest: lex_string_shorter lex_number_shorter)

function tokens :: "(jsstring \<Rightarrow> jsstring) \<Rightarrow> jsstring \<Rightarrow> token list option" where
  "tokens num s =
     (case dropWhile json_ws s of
        [] \<Rightarrow> Some []
      | c # r \<Rightarrow>
          (case next_token num (c # r) of
             None \<Rightarrow> None
           | Some (t, rest) \<Rightarrow> map_option (Cons t) (tokens num rest)))"
  by pat_completeness auto
termination
proof (relation "measure (\<lambda>(num, s). length s)")
  show "wf (measure (\<lambda>(num, s). length s))" by simp
next
  fix num :: "jsstring \<Rightarrow> jsstring" and s c r x t rest
  assume "dropWhile json_ws s = c # r" "next_token num (c # r) = Some x" "(t, rest) = x"
  then have "length rest < length (dropWhile json_ws s)"
    using next_token_shorter [of num "c # r" t rest] by simp
  then show "((num, rest), (num, s)) \<in> measure (\<lambda>(num, s). length s)"
    using length_dropWhile_le [of json_ws s] by simp
qed

declare tokens.simps [simp del]


text \<open>
  Property creation keeps the enumeration order of an ordinary object: the array indices
  (the canonical numerals up to \<open>2^32 - 2\<close>) in ascending order, then the other names in
  the order of creation. Setting a name that exists replaces its value in place, so of
  duplicate names in a JSON text the last value wins.
\<close>

definition array_index :: "jsstring \<Rightarrow> nat option" where
  "array_index k =
     (let n = foldl (\<lambda>a c. 10 * a + unat (c - 0x30)) 0 k
      in if k \<noteq> [] \<and> list_all is_digit k \<and> (length k = 1 \<or> hd k \<noteq> cu CHR ''0'')
            \<and> n \<le> 4294967294
         then Some n else None)"

fun insert_index :: "nat \<Rightarrow> jsstring \<Rightarrow> json \<Rightarrow> (jsstring \<times> json) list \<Rightarrow> (jsstring \<times> json) list" where
  "insert_index i k v [] = [(k, v)]"
| "insert_index i k v ((k', v') # kvs) =
     (case array_index k' of
        Some j \<Rightarrow> if j < i then (k', v') # insert_index i k v kvs else (k, v) # (k', v') # kvs
      | None \<Rightarrow> (k, v) # (k', v') # kvs)"

definition obj_set :: "(jsstring \<times> json) list \<Rightarrow> jsstring \<Rightarrow> json \<Rightarrow> (jsstring \<times> json) list" where
  "obj_set kvs k v =
     (if k \<in> set (map fst kvs) then map (\<lambda>(k', v'). if k' = k then (k', v) else (k', v')) kvs
      else case array_index k of
             Some i \<Rightarrow> insert_index i k v kvs
           | None \<Rightarrow> kvs @ [(k, v)])"

datatype frame =
    ArrF "json list"
  | ObjF "(jsstring \<times> json) list" jsstring

text \<open>
  \<open>expect_value\<close> reads the tokens where a value must start, \<open>after_value\<close> where a value
  has just ended; the stack holds the arrays and objects that are still open, an object
  with the name whose value is being read.
\<close>

fun expect_value :: "frame list \<Rightarrow> token list \<Rightarrow> json option"
  and after_value :: "json \<Rightarrow> frame list \<Rightarrow> token list \<Rightarrow> json option" where
  "expect_value st [] = None"
| "expect_value st (t # ts) =
     (case t of
        TString s \<Rightarrow> after_value (JStr s) st ts
      | TNumber n \<Rightarrow> after_value (JNum n) st ts
      | TTrue \<Rightarrow> after_value (JBool True) st ts
      | TFalse \<Rightarrow> after_value (JBool False) st ts
      | TNull \<Rightarrow> after_value JNull st ts
      | LBracket \<Rightarrow>
          (case ts of
             RBracket # ts' \<Rightarrow> after_value (JArr []) st ts'
           | _ \<Rightarrow> expect_value (ArrF [] # st) ts)
      | LBrace \<Rightarrow>
          (case ts of
             RBrace # ts' \<Rightarrow> after_value (JObj []) st ts'
           | TString k # Colon # ts' \<Rightarrow> expect_value (ObjF [] k # st) ts'
           | _ \<Rightarrow> None)
      | _ \<Rightarrow> None)"
| "after_value v [] ts = (if ts = [] then Some v else None)"
| "after_value v (ArrF xs # st) ts =
     (case ts of
        Comma # ts' \<Rightarrow> expect_value (ArrF (xs @ [v]) # st) ts'
      | RBracket # ts' \<Rightarrow> after_value (JArr (xs @ [v])) st ts'
      | _ \<Rightarrow> None)"
| "after_value v (ObjF kvs k # st) ts =
     (case ts of
        Comma # TString k' # Colon # ts' \<Rightarrow> expect_value (ObjF (obj_set kvs k v) k' # st) ts'
      | RBrace # ts' \<Rightarrow> after_value (JObj (obj_set kvs k v)) st ts'
      | _ \<Rightarrow> None)"

text \<open>
  \<open>num\<close> gives the text of a number from its literal: \<open>String(Number(literal))\<close>. With
  the platform's conversion for \<open>num\<close>, \<open>json_parse_with num\<close> is \<open>JSON.parse\<close>.
  \<open>number_text\<close> is that conversion on the integer literals of at most 15 digits, which
  a double holds exactly; a longer literal, or one with a fraction or an exponent, it
  keeps as written, which \<open>String\<close> does not always do. The statements about
  \<open>JSON_parse\<close> below are about texts whose numbers are such integers.
\<close>

definition json_parse_with :: "(jsstring \<Rightarrow> jsstring) \<Rightarrow> jsstring \<Rightarrow> json option" where
  "json_parse_with num text =
     (case tokens num text of None \<Rightarrow> None | Some ts \<Rightarrow> expect_value [] ts)"

definition number_text :: "jsstring \<Rightarrow> jsstring" where
  "number_text lexeme =
     (let ds = dropWhile (\<lambda>c. c = cu CHR ''-'') lexeme
      in if ds \<noteq> [] \<and> list_all (\<lambda>c. c = cu CHR ''0'') ds then js ''0'' else lexeme)"

definition JSON_parse :: "jsstring \<Rightarrow> json option" where
  "JSON_parse = json_parse_with number_text"


section \<open>The functions of the script\<close>

definition TEST_QUERY :: jsstring where
  "TEST_QUERY = js ''test''"

definition TIMEOUT_MS :: nat where
  "TIMEOUT_MS = 10000"

definition CONCURRENCY :: nat where
  "CONCURRENCY = 8"

text \<open>
  \<open>encodeURIComponent\<close> keeps the letters, the digits and \<open>- _ . ! ~ * ' ( )\<close>, and
  writes every other code point as the bytes of its UTF-8 encoding, each as \<open>%XX\<close>.
  \<open>None\<close> is the URIError it raises for a surrogate without its partner.
\<close>

definition uri_unreserved :: "jschar \<Rightarrow> bool" where
  "uri_unreserved c \<longleftrightarrow>
     (0x41 \<le> c \<and> c \<le> 0x5A) \<or> (0x61 \<le> c \<and> c \<le> 0x7A) \<or> (0x30 \<le> c \<and> c \<le> 0x39) \<or>
     c \<in> set (js ''-_.!~*'()'')"

definition utf8 :: "nat \<Rightarrow> nat list" where
  "utf8 cp =
     (if cp < 0x80 then [cp]
      else if cp < 0x800 then [0xC0 + cp div 64, 0x80 + cp mod 64]
      else if cp < 0x10000 then
        [0xE0 + cp div 4096, 0x80 + cp div 64 mod 64, 0x80 + cp mod 64]
      else
        [0xF0 + cp div 262144, 0x80 + cp div 4096 mod 64, 0x80 + cp div 64 mod 64,
         0x80 + cp mod 64])"

definition percent :: "nat \<Rightarrow> jsstring" where
  "percent b = [cu CHR ''%'', js ''0123456789ABCDEF'' ! (b div 16 mod 16),
                js ''0123456789ABCDEF'' ! (b mod 16)]"

fun encodeURIComponent :: "jsstring \<Rightarrow> jsstring option" where
  "encodeURIComponent [] = Some []"
| "encodeURIComponent (c # r) =
     (if uri_unreserved c then map_option (Cons c) (encodeURIComponent r)
      else if 0xDC00 \<le> c \<and> c \<le> 0xDFFF then None
      else if 0xD800 \<le> c \<and> c \<le> 0xDBFF then
        (case r of
           [] \<Rightarrow> None
         | d # r' \<Rightarrow>
             if 0xDC00 \<le> d \<and> d \<le> 0xDFFF then
               map_option
                 (append (concat (map percent
                    (utf8 (0x10000 + (unat c - 0xD800) * 0x400 + (unat d - 0xDC00))))))
                 (encodeURIComponent r')
             else None)
      else map_option (append (concat (map percent (utf8 (unat c))))) (encodeURIComponent r))"

text \<open>
  \<open>buildTestUrl(base)\<close>. The argument is any value, turned into a string by \<open>String\<close>.
  \<open>None\<close> is the URIError of \<open>encodeURIComponent\<close>.
\<close>

definition buildTestUrl :: "json \<Rightarrow> jsstring option" where
  "buildTestUrl base =
     (let url = js_trim (js_String base);
          sep = (if js_includes url (cu CHR ''?'') then js ''&'' else js ''?'')
      in case encodeURIComponent TEST_QUERY of
           None \<Rightarrow> None
         | Some q \<Rightarrow> Some (url @ sep @ js ''ac=videolist&wd='' @ q @ js ''&pg=1''))"

text \<open>
  What \<open>fetch\<close> and \<open>Response.text\<close> raise are error objects with a name and a message
  (a TypeError for a network failure or an invalid URL, the AbortError of an aborted
  request). \<open>String(e)\<close> is \<open>Error.prototype.toString\<close>.
\<close>

datatype thrown = Thrown (err_name: jsstring) (err_message: jsstring)

definition error_toString :: "thrown \<Rightarrow> jsstring" where
  "error_toString e =
     (if err_name e = [] then err_message e
      else if err_message e = [] then err_name e
      else err_name e @ js '': '' @ err_message e)"

text \<open>
  What the network answers to one request: no response (a network error, or the abort
  raised when the timer of \<open>ms\<close> milliseconds fires first), or a response with a status
  whose body then arrives or fails (again by a network error or by the abort).
  \<open>res.ok\<close> is true for the statuses 200 to 299.
\<close>

datatype body_outcome =
    Body jsstring
  | BodyFailed thrown

datatype fetch_outcome =
    NetworkError thrown
  | TimedOut thrown
  | Response nat body_outcome

definition res_ok :: "nat \<Rightarrow> bool" where
  "res_ok st \<longleftrightarrow> 200 \<le> st \<and> st \<le> 299"

datatype http_method = GET | HEAD | POST | PUT | DELETE

record request =
  req_url :: jsstring
  req_method :: http_method
  req_user_agent :: jsstring
  req_accept :: jsstring
  req_follow_redirects :: bool
  req_abort_after_ms :: nat

record fetch_result =
  r_ok :: bool
  r_status :: nat
  r_text :: "jsstring option"
  r_error :: "jsstring option"

text \<open>
  \<open>fetchWithTimeout(url, ms)\<close> up to its first \<open>await\<close>: the request it issues and the
  timer it arms.
\<close>

definition fetchWithTimeout_request :: "jsstring \<Rightarrow> nat \<Rightarrow> request" where
  "fetchWithTimeout_request url ms =
     \<lparr>req_url = url, req_method = GET,
      req_user_agent = js ''Mozilla/5.0 (Windows NT 10.0; Win64; x64) AppleWebKit/537.36 (KHTML, like Gecko) Chrome/122 Safari/537.36'',
      req_accept = js ''application/json, text/plain;q=0.9, */*;q=0.8'',
      req_follow_redirects = True, req_abort_after_ms = ms\<rparr>"

text \<open>
  The \<open>try\<close> block of \<open>fetchWithTimeout\<close>: \<open>Inl\<close> is the exception that leaves it, from
  \<open>await fetch\<close> or from \<open>await res.text()\<close>.
\<close>

definition fetch_try :: "fetch_outcome \<Rightarrow> thrown + fetch_result" where
  "fetch_try outcome =
     (case outcome of
        NetworkError e \<Rightarrow> Inl e
      | TimedOut e \<Rightarrow> Inl e
      | Response st body \<Rightarrow>
          (case body of
             BodyFailed e \<Rightarrow> Inl e
           | Body t \<Rightarrow> Inr \<lparr>r_ok = res_ok st, r_status = st, r_text = Some t, r_error = None\<rparr>))"

text \<open>
  \<open>fetchWithTimeout\<close> from the answer of the network on: the \<open>try\<close> block, and the
  \<open>catch\<close> that turns an exception \<open>e\<close> into a result, with
  \<open>e && e.message ? e.message : String(e)\<close> for the error. \<open>Inl\<close> would be an exception
  raised to the caller.
\<close>

definition fetchWithTimeout :: "jsstring \<Rightarrow> nat \<Rightarrow> fetch_outcome \<Rightarrow> thrown + fetch_result" where
  "fetchWithTimeout url ms outcome =
     (case fetch_try outcome of
        Inr r \<Rightarrow> Inr r
      | Inl e \<Rightarrow>
          Inr \<lparr>r_ok = False, r_status = 0, r_text = None,
               r_error = Some (if err_message e \<noteq> [] then err_message e else error_toString e)\<rparr>)"

datatype verdict =
    V_ok | V_ok_maybe | V_unknown | V_xml_or_html | V_text | V_empty | V_pass | V_fail

record judgement =
  j_verdict :: verdict
  j_detail :: jsstring

text \<open>
  \<open>judgeResponseShape(text)\<close>, with \<open>JSON.parse\<close> as the parameter \<open>parse\<close>; the second
  half is the \<open>catch\<close> block.
\<close>

definition judgeResponseShape :: "(jsstring \<Rightarrow> json option) \<Rightarrow> jsstring \<Rightarrow> judgement" where
  "judgeResponseShape parse text =
     (case parse text of
        Some json \<Rightarrow>
          if truthy json \<and> isArray (property json (js ''list'')) then
            \<lparr>j_verdict = V_ok, j_detail = js ''JSON with list[]''\<rparr>
          else if truthy json \<and> isArray (property json (js ''data'')) then
            \<lparr>j_verdict = V_ok_maybe, j_detail = js ''JSON with data[]''\<rparr>
          else if truthy json \<and>
                  (property json (js ''code'') \<noteq> None \<or> property json (js ''total'') \<noteq> None) then
            \<lparr>j_verdict = V_ok_maybe, j_detail = js ''JSON with code/total''\<rparr>
          else \<lparr>j_verdict = V_unknown, j_detail = js ''JSON but unknown shape''\<rparr>
      | None \<Rightarrow>
          if startsWith (js_trim text) (cu CHR ''<'') then
            \<lparr>j_verdict = V_xml_or_html, j_detail = js ''Non-JSON response (XML/HTML)''\<rparr>
          else if length text > 0 then
            \<lparr>j_verdict = V_text, j_detail = js ''Plain text response''\<rparr>
          else \<lparr>j_verdict = V_empty, j_detail = js ''Empty body''\<rparr>)"


section \<open>The worker pool\<close>

text \<open>
  One element of \<open>results\<close>, with its properties \<open>key\<close>, \<open>name\<close>, \<open>base\<close>,
  \<open>testUrl\<close>, \<open>verdict\<close>, \<open>status\<close>, \<open>ms\<close> and \<open>detail\<close>. \<open>name\<close> and \<open>base\<close> are
  the values found in the configuration, which need not be strings.
\<close>

record probe_result =
  p_key :: jsstring
  p_name :: json
  p_base :: json
  p_testUrl :: jsstring
  p_verdict :: verdict
  p_status :: nat
  p_ms :: int
  p_detail :: jsstring

text \<open>
  The lines of the console. A progress line is kept as the values it prints: the prefix
  mark, \<open>tested\<close>, \<open>entries.length\<close>, the key, \<open>site.name || ''\<close>, the milliseconds, the
  verdict, the status and the detail.
\<close>

datatype mark = Mark_pass | Mark_maybe | Mark_other

datatype log_line =
    Line jsstring
  | Progress mark nat nat jsstring json int verdict nat jsstring
  | Saved
  | NotFound
  | ParseFailed
  | Unexpected thrown

text \<open>
  A call of \<open>worker\<close> is suspended at its \<open>await\<close>, holding its local variables
  \<open>key\<close>, \<open>site\<close>, \<open>base\<close> and \<open>testUrl\<close>, or has returned, or has raised.
\<close>

datatype worker_state =
    Awaiting jsstring json json jsstring
  | Returned
  | Threw thrown

text \<open>
  The variables that the workers share (\<open>queue\<close>, \<open>results\<close>, \<open>tested\<close> and the
  constant \<open>entries.length\<close>), the console, the promises of the workers with the first
  rejection among them (which is what \<open>Promise.all\<close> rejects with), and the network:
  the requests issued so far and how many of them have been answered.
\<close>

record state =
  queue :: "(jsstring \<times> json) list"
  results :: "probe_result list"
  tested :: nat
  total :: nat
  stdout :: "log_line list"
  workers :: "worker_state list"
  rejection :: "thrown option"
  requests :: "request list"
  answered :: nat

definition raise :: "thrown \<Rightarrow> state \<Rightarrow> worker_state \<times> state" where
  "raise e s =
     (Threw e, s\<lparr>rejection := (case rejection s of None \<Rightarrow> Some e | Some e' \<Rightarrow> Some e')\<rparr>)"

definition URIError :: thrown where
  "URIError = Thrown (js ''URIError'') (js ''URI malformed'')"

definition TypeError_name_of_null :: thrown where
  "TypeError_name_of_null =
     Thrown (js ''TypeError'') (js ''Cannot read properties of null (reading 'name')'')"

definition site_base :: "json \<Rightarrow> json" where
  \<comment> \<open>\<open>(site && site.api) || ''\<close>\<close>
  "site_base site =
     (case property site (js ''api'') of
        Some v \<Rightarrow> if truthy site \<and> truthy v then v else JStr []
      | None \<Rightarrow> JStr [])"

text \<open>
  \<open>worker\<close> from the head of its loop to the \<open>await\<close>: it leaves the loop on an empty
  queue, and otherwise takes the first entry, builds the URL and issues the request.
\<close>

definition worker_enter :: "state \<Rightarrow> worker_state \<times> state" where
  "worker_enter s =
     (case queue s of
        [] \<Rightarrow> (Returned, s)
      | (key, site) # rest \<Rightarrow>
          let base = site_base site
          in case buildTestUrl base of
               None \<Rightarrow> raise URIError (s\<lparr>queue := rest\<rparr>)
             | Some testUrl \<Rightarrow>
                 (Awaiting key site base testUrl,
                  s\<lparr>queue := rest,
                    requests := requests s @ [fetchWithTimeout_request testUrl TIMEOUT_MS]\<rparr>))"

text \<open>
  The verdict and the detail that \<open>worker\<close> gives to the result \<open>r\<close> of
  \<open>fetchWithTimeout\<close>.
\<close>

definition probe_verdict :: "(jsstring \<Rightarrow> json option) \<Rightarrow> fetch_result \<Rightarrow> verdict \<times> jsstring" where
  "probe_verdict parse r =
     (if r_ok r then
        let judge = judgeResponseShape parse (case r_text r of None \<Rightarrow> [] | Some t \<Rightarrow> t)
        in (if j_verdict judge = V_ok then V_pass else j_verdict judge, j_detail judge)
      else
        (V_fail,
         case r_error r of
           None \<Rightarrow> js ''HTTP '' @ decimal (r_status r)
         | Some m \<Rightarrow> if m \<noteq> [] then m else js ''HTTP '' @ decimal (r_status r)))"

text \<open>
  The end of the loop body: the new element of \<open>results\<close>, the counter and the progress
  line. \<open>site.name\<close> raises a TypeError when \<open>site\<close> is \<open>null\<close> (\<open>Inl\<close>), before anything
  is recorded.
\<close>

definition record_probe ::
  "jsstring \<Rightarrow> json \<Rightarrow> json \<Rightarrow> jsstring \<Rightarrow> fetch_result \<Rightarrow> int \<Rightarrow> verdict \<times> jsstring \<Rightarrow> state
     \<Rightarrow> thrown + state" where
  "record_probe key site base testUrl r elapsed vd s =
     (case vd of
        (verdict, detail) \<Rightarrow>
          if site = JNull then Inl TypeError_name_of_null
          else
            let site_name = property site (js ''name'');
                s1 = s\<lparr>results := results s @
                         [\<lparr>p_key = key,
                           p_name = (case site_name of
                                       None \<Rightarrow> JStr key
                                     | Some v \<Rightarrow> if truthy v then v else JStr key),
                           p_base = base, p_testUrl = testUrl, p_verdict = verdict,
                           p_status = r_status r, p_ms = elapsed, p_detail = detail\<rparr>],
                       tested := tested s + 1\<rparr>
            in Inr (s1\<lparr>stdout := stdout s1 @
                         [Progress
                            (if verdict = V_pass then Mark_pass
                             else if verdict = V_ok_maybe then Mark_maybe
                             else Mark_other)
                            (tested s1) (total s1) key
                            (case site_name of
                               None \<Rightarrow> JStr []
                             | Some v \<Rightarrow> if truthy v then v else JStr [])
                            elapsed verdict (r_status r) detail]\<rparr>))"

text \<open>
  \<open>worker\<close> from the \<open>await\<close> on, once the network has answered the request of worker
  \<open>i\<close> with \<open>outcome\<close> after \<open>elapsed\<close> milliseconds: the rest of the loop body, and
  the loop again up to the next \<open>await\<close>. The result is \<open>None\<close> when worker \<open>i\<close> is not
  waiting for an answer.
\<close>

definition worker_resume ::
  "(jsstring \<Rightarrow> json option) \<Rightarrow> state \<Rightarrow> nat \<Rightarrow> fetch_outcome \<Rightarrow> int \<Rightarrow> state option" where
  "worker_resume parse s i outcome elapsed =
     (if i < length (workers s) then
        (case workers s ! i of
           Awaiting key site base testUrl \<Rightarrow>
             let s0 = s\<lparr>answered := answered s + 1\<rparr>;
                 (w, s') =
                   (case fetchWithTimeout testUrl TIMEOUT_MS outcome of
                      Inl e \<Rightarrow> raise e s0
                    | Inr r \<Rightarrow>
                        (case record_probe key site base testUrl r elapsed
                                (probe_verdict parse r) s0 of
                           Inl e \<Rightarrow> raise e s0
                         | Inr s2 \<Rightarrow> worker_enter s2))
             in Some (s'\<lparr>workers := (workers s')[i := w]\<rparr>)
         | Returned \<Rightarrow> None
         | Threw e \<Rightarrow> None)
      else None)"

text \<open>
  \<open>Array.from({ length: CONCURRENCY }, (_, i) => worker(i + 1))\<close>: each call runs to its
  first \<open>await\<close>, or to its end, before the next one starts.
\<close>

definition spawn :: "state \<Rightarrow> state" where
  "spawn s = (case worker_enter s of (w, s') \<Rightarrow> s'\<lparr>workers := workers s' @ [w]\<rparr>)"

fun spawn_workers :: "nat \<Rightarrow> state \<Rightarrow> state" where
  "spawn_workers 0 s = s"
| "spawn_workers (Suc n) s = spawn_workers n (spawn s)"

definition init_state :: "(jsstring \<times> json) list \<Rightarrow> state" where
  "init_state entries =
     \<lparr>queue = entries, results = [], tested = 0, total = length entries,
      stdout = [Line (js ''Testing '' @ decimal (length entries)
                      @ js '' sources (GET only, timeout '' @ decimal TIMEOUT_MS
                      @ js ''ms)...'' @ [0x0A])],
      workers = [], rejection = None, requests = [], answered = 0\<rparr>"

definition start_pool :: "(jsstring \<times> json) list \<Rightarrow> state" where
  "start_pool entries = spawn_workers CONCURRENCY (init_state entries)"

text \<open>
  The run of the pool is driven by the network: an event is the answer to the request of
  one worker. A list of events that names a worker with no request in flight is not a
  run (\<open>None\<close>).
\<close>

datatype event = Answer nat fetch_outcome int

fun run_events :: "(jsstring \<Rightarrow> json option) \<Rightarrow> event list \<Rightarrow> state \<Rightarrow> state option" where
  "run_events parse [] s = Some s"
| "run_events parse (Answer i outcome elapsed # es) s =
     (case worker_resume parse s i outcome elapsed of
        None \<Rightarrow> None
      | Some s' \<Rightarrow> run_events parse es s')"

definition in_flight :: "state \<Rightarrow> nat" where
  "in_flight s = length (requests s) - answered s"

definition all_returned :: "state \<Rightarrow> bool" where
  "all_returned s \<longleftrightarrow> list_all (\<lambda>w. w = Returned) (workers s)"


section \<open>The program\<close>

text \<open>
  What the program finds around it: \<open>config.json\<close> (absent, unreadable so that
  \<open>readFileSync\<close> raises, or its contents), the answers of the network in the order in
  which they arrive, the clock for the time stamp of the report, and whether writing the
  report raises.
\<close>

datatype config_file =
    Missing
  | Unreadable thrown
  | Contents jsstring

record env =
  env_config :: config_file
  env_answers :: "event list"
  env_now :: jsstring
  env_write_error :: "thrown option"

record report =
  rep_when :: jsstring
  rep_results :: "probe_result list"

text \<open>
  What a run of the program leaves: the exit status of the process, both streams of the
  console, the requests it has issued, the \<open>results\<close> array, the report file if one was
  written, and the exception with which the promise of \<open>main\<close> was rejected, if it was.
\<close>

record run =
  exit_code :: nat
  out :: "log_line list"
  err :: "log_line list"
  issued :: "request list"
  collected :: "probe_result list"
  written :: "report option"
  escaped :: "thrown option"

definition exit_1 :: "log_line \<Rightarrow> run" where
  \<comment> \<open>\<open>console.error(...); process.exit(1)\<close> inside \<open>main\<close>\<close>
  "exit_1 line =
     \<lparr>exit_code = 1, out = [], err = [line], issued = [], collected = [], written = None,
      escaped = None\<rparr>"

definition main_rejected :: "thrown \<Rightarrow> log_line list \<Rightarrow> request list \<Rightarrow> probe_result list \<Rightarrow> run" where
  \<comment> \<open>\<open>main().catch((e) => { console.error('Unexpected error:', e); process.exit(1); })\<close>\<close>
  "main_rejected e lines reqs res =
     \<lparr>exit_code = 1, out = lines, err = [Unexpected e], issued = reqs, collected = res,
      written = None, escaped = Some e\<rparr>"

definition TypeError_entries_of_null :: thrown where
  "TypeError_entries_of_null =
     Thrown (js ''TypeError'') (js ''Cannot convert undefined or null to object'')"

definition sites_of :: "json \<Rightarrow> json" where
  \<comment> \<open>\<open>cfg && cfg.api_site ? cfg.api_site : {}\<close>\<close>
  "sites_of cfg =
     (case property cfg (js ''api_site'') of
        Some v \<Rightarrow> if truthy cfg \<and> truthy v then v else JObj []
      | None \<Rightarrow> JObj [])"

definition summary :: "probe_result list \<Rightarrow> log_line list" where
  "summary rs =
     [Line (0x0A # js ''===== SUMMARY =====''),
      Line (js ''PASS: '' @ decimal (length (filter (\<lambda>r. p_verdict r = V_pass) rs))),
      Line (js ''MAYBE: '' @ decimal (length (filter (\<lambda>r. p_verdict r = V_ok_maybe) rs))),
      Line (js ''XML/HTML (likely incompatible): ''
            @ decimal (length (filter (\<lambda>r. p_verdict r = V_xml_or_html) rs))),
      Line (js ''UNKNOWN/TEXT: ''
            @ decimal (length (filter (\<lambda>r. p_verdict r = V_unknown \<or> p_verdict r = V_text) rs))),
      Line (js ''FAIL/EMPTY: ''
            @ decimal (length (filter (\<lambda>r. p_verdict r = V_fail \<or> p_verdict r = V_empty) rs)))]"

text \<open>
  \<open>main\<close> after \<open>await Promise.all(workers)\<close>, from a state of the pool in which every
  worker has returned: the summary and the report.
\<close>

definition finish :: "env \<Rightarrow> state \<Rightarrow> run" where
  "finish env s =
     (case env_write_error env of
        Some e \<Rightarrow> main_rejected e (stdout s @ summary (results s)) (requests s) (results s)
      | None \<Rightarrow>
          \<lparr>exit_code = 0, out = stdout s @ summary (results s) @ [Saved], err = [],
           issued = requests s, collected = results s,
           written = Some \<lparr>rep_when = env_now env, rep_results = results s\<rparr>,
           escaped = None\<rparr>)"

text \<open>
  The whole program. \<open>None\<close> stands for a list of answers that is not a run of the
  pool, or that leaves a request unanswered: every request is answered in the end, by
  its timer if by nothing else. Once a worker has raised, \<open>Promise.all\<close> rejects and
  the handler ends the process; the answers that are handled before it does may be any
  number.
\<close>

definition main :: "(jsstring \<Rightarrow> json option) \<Rightarrow> env \<Rightarrow> run option" where
  "main parse env =
     (case env_config env of
        Missing \<Rightarrow> Some (exit_1 NotFound)
      | Unreadable e \<Rightarrow> Some (main_rejected e [] [] [])
      | Contents raw \<Rightarrow>
          (case parse raw of
             None \<Rightarrow> Some (exit_1 ParseFailed)
           | Some cfg \<Rightarrow>
               (case Object_entries (sites_of cfg) of
                  None \<Rightarrow> Some (main_rejected TypeError_entries_of_null [] [] [])
                | Some entries \<Rightarrow>
                    if length entries = 0 then
                      Some \<lparr>exit_code = 0, out = [Line (js ''No api_site entries found.'')],
                            err = [], issued = [], collected = [], written = None,
                            escaped = None\<rparr>
                    else
                      (case run_events parse (env_answers env) (start_pool entries) of
                         None \<Rightarrow> None
                       | Some s \<Rightarrow>
                           (case rejection s of
                              Some e \<Rightarrow> Some (main_rejected e (stdout s) (requests s) (results s))
                            | None \<Rightarrow> if all_returned s then Some (finish env s) else None)))))"


section \<open>The specification's reading of the shape\<close>

text \<open>
  The shape of a parsed body in the words of the specification: a list-valued \<open>list\<close>
  field, else a list-valued \<open>data\<close> field, else a \<open>code\<close> or \<open>total\<close> field.
\<close>

definition has_field :: "json \<Rightarrow> jsstring \<Rightarrow> bool" where
  "has_field v f \<longleftrightarrow> (case v of JObj kvs \<Rightarrow> f \<in> set (map fst kvs) | _ \<Rightarrow> False)"

definition has_array_field :: "json \<Rightarrow> jsstring \<Rightarrow> bool" where
  "has_array_field v f \<longleftrightarrow>
     (case v of
        JObj kvs \<Rightarrow> (case map_of kvs f of Some (JArr xs) \<Rightarrow> True | _ \<Rightarrow> False)
      | _ \<Rightarrow> False)"

definition spec_shape :: "json \<Rightarrow> verdict" where
  "spec_shape v =
     (if has_array_field v (js ''list'') then V_ok
      else if has_array_field v (js ''data'') then V_ok_maybe
      else if has_field v (js ''code'') \<or> has_field v (js ''total'') then V_ok_maybe
      else V_unknown)"

section \<open>Strings: basic facts\<close>

lemma unat_cu: "unat (cu c) = of_char c"
proof -
  have "(of_char c :: nat) < 256"
    by (cases c) (simp add: of_char_Char)
  moreover have "(256 :: nat) < 2 ^ LENGTH(16)" by simp
  ultimately have "(of_char c :: nat) < 2 ^ LENGTH(16)" by (rule order_less_trans)
  moreover have "cu c = of_nat (of_char c)" by (simp add: cu_def of_nat_of_char)
  ultimately show ?thesis by (simp only: unat_of_nat mod_less)
qed

lemma cu_eq_iff [simp]: "cu c = cu d \<longleftrightarrow> c = d"
proof
  assume "cu c = cu d"
  then have "(of_char c :: nat) = of_char d" by (metis unat_cu)
  then show "c = d" using inj_of_char [where ?'a = nat] by (simp add: inj_def)
qed simp

lemma js_Nil [simp]: "js [] = []"
  by (simp add: js_def)

lemma js_Cons: "js (c # s) = cu c # js s"
  by (simp add: js_def)

lemma js_append: "js (s @ t) = js s @ js t"
  by (simp add: js_def)

lemma js_eq_iff [simp]: "js s = js t \<longleftrightarrow> s = t"
  by (simp add: js_def inj_map_eq_map inj_def)

lemma js_eq_Nil_iff [simp]: "js s = [] \<longleftrightarrow> s = []"
  by (simp add: js_def)

lemma js_trim_decomposition:
  "\<exists>l r. s = l @ js_trim s @ r \<and> list_all js_whitespace l \<and> list_all js_whitespace r"
proof -
  define d where "d = dropWhile js_whitespace s"
  have 1: "s = takeWhile js_whitespace s @ d"
    by (simp add: d_def)
  have "rev (rev d) = rev (takeWhile js_whitespace (rev d) @ dropWhile js_whitespace (rev d))"
    by (simp only: takeWhile_dropWhile_id)
  then have "d = rev (dropWhile js_whitespace (rev d)) @ rev (takeWhile js_whitespace (rev d))"
    by (simp only: rev_rev_ident rev_append)
  then have 2: "d = js_trim s @ rev (takeWhile js_whitespace (rev d))"
    by (simp only: js_trim_def d_def)
  have 3: "list_all js_whitespace (takeWhile js_whitespace s)"
    by (simp add: list_all_iff) (meson set_takeWhileD)
  have 4: "list_all js_whitespace (rev (takeWhile js_whitespace (rev d)))"
    by (simp add: list_all_iff) (meson set_takeWhileD)
  from 1 2 have "s = takeWhile js_whitespace s @ js_trim s @ rev (takeWhile js_whitespace (rev d))"
    by simp
  with 3 4 show ?thesis by blast
qed

lemma takeWhile_dropWhile_Nil: "takeWhile P (dropWhile P xs) = []"
  by (induction xs) auto

lemma js_trim_no_trailing: "takeWhile js_whitespace (rev (js_trim s)) = []"
  by (simp add: js_trim_def takeWhile_dropWhile_Nil)

lemma dropWhile_rev_hd:
  assumes "xs \<noteq> []" "\<not> P (hd xs)"
  shows "rev (dropWhile P (rev xs)) \<noteq> [] \<and> hd (rev (dropWhile P (rev xs))) = hd xs"
proof -
  obtain x ys where xs: "xs = x # ys" using assms(1) by (cases xs) auto
  have "dropWhile P (rev ys @ [x]) = dropWhile P (rev ys) @ [x]"
    using assms(2) xs by (simp add: dropWhile_append3)
  then show ?thesis using xs by simp
qed

lemma js_trim_head:
  "js_trim s = [] \<and> dropWhile js_whitespace s = [] \<or>
   js_trim s \<noteq> [] \<and> dropWhile js_whitespace s \<noteq> [] \<and>
   hd (js_trim s) = hd (dropWhile js_whitespace s) \<and> \<not> js_whitespace (hd (js_trim s))"
proof (cases "dropWhile js_whitespace s = []")
  case True
  have "js_trim s = []"
    by (simp only: js_trim_def True rev.simps dropWhile.simps)
  with True show ?thesis by blast
next
  case False
  then have "\<not> js_whitespace (hd (dropWhile js_whitespace s))"
    by (rule hd_dropWhile)
  with False have "js_trim s \<noteq> [] \<and> hd (js_trim s) = hd (dropWhile js_whitespace s)"
    unfolding js_trim_def by (rule dropWhile_rev_hd)
  with False \<open>\<not> js_whitespace (hd (dropWhile js_whitespace s))\<close> show ?thesis by metis
qed

lemma js_trim_no_leading: "takeWhile js_whitespace (js_trim s) = []"
  using js_trim_head [of s] by (cases "js_trim s") auto

lemma startsWith_hd: "startsWith s c \<longleftrightarrow> s \<noteq> [] \<and> hd s = c"
  by (cases s) (auto simp: startsWith_def)

lemma startsWith_js_trim:
  "startsWith (js_trim s) c \<longleftrightarrow> startsWith (dropWhile js_whitespace s) c"
  unfolding startsWith_hd using js_trim_head [of s] by metis

lemma encodeURIComponent_TEST_QUERY: "encodeURIComponent TEST_QUERY = Some (js ''test'')"
  by (simp add: TEST_QUERY_def js_Cons uri_unreserved_def cu_def)

lemma buildTestUrl_eq:
  "buildTestUrl base =
     Some (js_trim (js_String base)
           @ (if cu CHR ''?'' \<in> set (js_trim (js_String base)) then js ''&'' else js ''?'')
           @ js ''ac=videolist&wd=test&pg=1'')"
  by (simp add: buildTestUrl_def encodeURIComponent_TEST_QUERY js_includes_def Let_def
        js_append [symmetric])

lemma buildTestUrl_total: "\<exists>u. buildTestUrl base = Some u"
  by (simp add: buildTestUrl_eq)

lemmas lex_eval =
  json_parse_with_def tokens.simps next_token_def lex_number_def lex_minus_def lex_int_def
  lex_digits_def lex_frac_def lex_exp_def lex_sign_def js_def cu_def json_ws_def
  is_digit_def obj_set_def array_index_def hex4_def hex_value_def unescape_def

lemma falsy_no_property: "\<not> truthy v \<Longrightarrow> property v f = None"
  by (cases v) auto

lemma has_field_property: "has_field v f \<longleftrightarrow> property v f \<noteq> None"
  by (cases v) (auto simp: has_field_def map_of_eq_None_iff)

lemma has_array_field_property: "has_array_field v f \<longleftrightarrow> isArray (property v f)"
  by (cases v) (auto simp: has_array_field_def isArray_def split: option.splits json.splits)

lemma judgeResponseShape_parsed:
  "parse text = Some v \<Longrightarrow> j_verdict (judgeResponseShape parse text) = spec_shape v"
proof (cases "truthy v")
  case True
  assume "parse text = Some v"
  with True show ?thesis
    by (simp add: judgeResponseShape_def spec_shape_def has_field_property
          has_array_field_property)
next
  case False
  assume p: "parse text = Some v"
  from False have "\<And>f. property v f = None" by (rule falsy_no_property)
  with p False show ?thesis
    by (simp add: judgeResponseShape_def spec_shape_def has_field_property
          has_array_field_property isArray_def)
qed

lemma parse_list_example:
  "json_parse_with num (js ''{\"list\":[1,2]}'') =
     Some (JObj [(js ''list'', JArr [JNum (num (js ''1'')), JNum (num (js ''2''))])])"
  by (simp add: lex_eval)

lemma parse_data_example:
  "json_parse_with num (js ''{\"data\":[1]}'') =
     Some (JObj [(js ''data'', JArr [JNum (num (js ''1''))])])"
  by (simp add: lex_eval)

lemma parse_code_example:
  "json_parse_with num (js ''{\"code\":0}'') = Some (JObj [(js ''code'', JNum (num (js ''0'')))])"
  by (simp add: lex_eval)

lemma parse_foo_example:
  "json_parse_with num (js ''{\"foo\":1}'') = Some (JObj [(js ''foo'', JNum (num (js ''1'')))])"
  by (simp add: lex_eval)

lemma spec_shape_examples:
  "spec_shape (JObj [(js ''list'', JArr xs)]) = V_ok"
  "spec_shape (JObj [(js ''data'', JArr xs)]) = V_ok_maybe"
  "spec_shape (JObj [(js ''code'', x)]) = V_ok_maybe"
  "spec_shape (JObj [(js ''foo'', x)]) = V_unknown"
  by (simp_all add: spec_shape_def has_field_def has_array_field_def)

lemma probe_verdict_ok:
  "r_ok r \<Longrightarrow> r_text r = Some text \<Longrightarrow> parse text = Some v \<Longrightarrow>
   fst (probe_verdict parse r) = (if spec_shape v = V_ok then V_pass else spec_shape v)"
  by (simp add: probe_verdict_def Let_def judgeResponseShape_parsed)


lemma JSON_parse_not_json: "JSON_parse (js '' <a>'') = None"
  by (simp add: JSON_parse_def lex_eval number_text_def)

lemma JSON_parse_hello: "JSON_parse (js ''hello'') = None"
  by (simp add: JSON_parse_def lex_eval number_text_def)

lemma judgeResponseShape_not_parsed:
  "parse text = None \<Longrightarrow>
   j_verdict (judgeResponseShape parse text) =
     (if startsWith (js_trim text) (cu CHR ''<'') then V_xml_or_html
      else if text \<noteq> [] then V_text else V_empty)"
  by (simp add: judgeResponseShape_def)

lemma lt_not_whitespace: "\<not> js_whitespace (cu CHR ''<'')"
  by (simp add: js_whitespace_def cu_def)

lemma startsWith_lt_trim: "startsWith text (cu CHR ''<'') \<Longrightarrow> startsWith (js_trim text) (cu CHR ''<'')"
  unfolding startsWith_js_trim
  by (cases "text") (simp_all add: startsWith_def lt_not_whitespace)

text \<open>
  Claim C4. For every base string, \<open>buildTestUrl\<close> strips the whitespace at both ends of
  the base (what it strips is whitespace, and what is left neither starts nor ends with
  whitespace) and appends the query \<open>ac=videolist&wd=test&pg=1\<close>, after \<open>&\<close> when the
  trimmed base contains a \<open>?\<close> and after \<open>?\<close> when it does not; it raises nothing. The
  example of the specification is the last conjunct.
\<close>

theorem buildTestUrl_string:
  "buildTestUrl (JStr base) =
     Some (js_trim base
           @ (if cu CHR ''?'' \<in> set (js_trim base) then js ''&'' else js ''?'')
           @ js ''ac=videolist&wd=test&pg=1'')
   \<and> (\<exists>l r. base = l @ js_trim base @ r \<and> list_all js_whitespace l \<and> list_all js_whitespace r)
   \<and> takeWhile js_whitespace (js_trim base) = []
   \<and> takeWhile js_whitespace (rev (js_trim base)) = []
   \<and> buildTestUrl (JStr (js '' https://api.example.com/provide/vod '')) =
       Some (js ''https://api.example.com/provide/vod?ac=videolist&wd=test&pg=1'')"
proof -
  have "js_trim (js '' https://api.example.com/provide/vod '') =
          js ''https://api.example.com/provide/vod''"
    by (simp add: js_trim_def js_def cu_def js_whitespace_def)
  moreover have "cu CHR ''?'' \<notin> set (js ''https://api.example.com/provide/vod'')"
    by (simp add: js_def)
  ultimately have "buildTestUrl (JStr (js '' https://api.example.com/provide/vod '')) =
       Some (js ''https://api.example.com/provide/vod?ac=videolist&wd=test&pg=1'')"
    by (simp add: buildTestUrl_eq js_append [symmetric])
  then show ?thesis
    using js_trim_decomposition [of base] js_trim_no_leading [of base]
      js_trim_no_trailing [of base]
    by (simp add: buildTestUrl_eq)
qed

theorem buildTestUrl_string_witness:
  "buildTestUrl (JStr (js ''http://h/api.php?x=1 '')) =
     Some (js ''http://h/api.php?x=1&ac=videolist&wd=test&pg=1'')"
proof -
  have "js_trim (js ''http://h/api.php?x=1 '') = js ''http://h/api.php?x=1''"
    by (simp add: js_trim_def js_def cu_def js_whitespace_def)
  moreover have "cu CHR ''?'' \<in> set (js ''http://h/api.php?x=1'')"
    by (simp add: js_def)
  ultimately show ?thesis
    using buildTestUrl_string [of "js ''http://h/api.php?x=1 ''"]
    by (simp add: js_append [symmetric])
qed

text \<open>
  Claim C2. When the body parses as JSON, the verdict of \<open>judgeResponseShape\<close> is the
  shape the specification describes: \<open>ok\<close> for a list-valued \<open>list\<close> field, else
  \<open>ok_maybe\<close> for a list-valued \<open>data\<close> field, else \<open>ok_maybe\<close> for a \<open>code\<close> or \<open>total\<close>
  field, else \<open>unknown\<close>; and the worker turns \<open>ok\<close> into the final verdict \<open>pass\<close>.
  The four bodies of the specification follow, parsed by the reference parser with any
  conversion of numbers.
\<close>

theorem judgeResponseShape_json:
  "(parse text = Some v \<longrightarrow>
      j_verdict (judgeResponseShape parse text) = spec_shape v
      \<and> (r_ok r \<and> r_text r = Some text \<and> spec_shape v = V_ok
           \<longrightarrow> fst (probe_verdict parse r) = V_pass))
   \<and> j_verdict (judgeResponseShape (json_parse_with num) (js ''{\"list\":[1,2]}'')) = V_ok
   \<and> j_verdict (judgeResponseShape (json_parse_with num) (js ''{\"data\":[1]}'')) = V_ok_maybe
   \<and> j_verdict (judgeResponseShape (json_parse_with num) (js ''{\"code\":0}'')) = V_ok_maybe
   \<and> j_verdict (judgeResponseShape (json_parse_with num) (js ''{\"foo\":1}'')) = V_unknown"
  using judgeResponseShape_parsed [of "json_parse_with num", OF parse_list_example]
    judgeResponseShape_parsed [of "json_parse_with num", OF parse_data_example]
    judgeResponseShape_parsed [of "json_parse_with num", OF parse_code_example]
    judgeResponseShape_parsed [of "json_parse_with num", OF parse_foo_example]
  by (simp add: spec_shape_examples judgeResponseShape_parsed probe_verdict_ok)

theorem judgeResponseShape_json_witness:
  "JSON_parse (js ''{\"list\":[1,2]}'') = Some (JObj [(js ''list'', JArr [JNum (js ''1''), JNum (js ''2'')])])
   \<and> spec_shape (JObj [(js ''list'', JArr [JNum (js ''1''), JNum (js ''2'')])]) = V_ok
   \<and> j_verdict (judgeResponseShape JSON_parse (js ''{\"list\":[1,2]}'')) = V_ok
   \<and> fst (probe_verdict JSON_parse
             \<lparr>r_ok = True, r_status = 200, r_text = Some (js ''{\"list\":[1,2]}''),
              r_error = None\<rparr>) = V_pass"
proof -
  have p: "JSON_parse (js ''{\"list\":[1,2]}'') =
             Some (JObj [(js ''list'', JArr [JNum (js ''1''), JNum (js ''2'')])])"
    unfolding JSON_parse_def parse_list_example by (simp add: number_text_def js_def cu_def)
  show ?thesis
    using p judgeResponseShape_json [of JSON_parse "js ''{\"list\":[1,2]}''"
        "JObj [(js ''list'', JArr [JNum (js ''1''), JNum (js ''2'')])]"
        "\<lparr>r_ok = True, r_status = 200, r_text = Some (js ''{\"list\":[1,2]}''), r_error = None\<rparr>"
        number_text]
    by (simp add: spec_shape_examples)
qed

text \<open>
  Claim C3, as the specification states it, fails: a body that does not parse and does
  not start with \<open><\<close> is still classified \<open>xml_or_html\<close> when \<open><\<close> is its first
  character after leading whitespace, because the script tests \<open>text.trim()\<close>.
\<close>

theorem judgeResponseShape_leading_space_counterexample:
  "JSON_parse (js '' <a>'') = None
   \<and> \<not> startsWith (js '' <a>'') (cu CHR ''<'')
   \<and> j_verdict (judgeResponseShape JSON_parse (js '' <a>'')) = V_xml_or_html"
proof -
  have t: "js_trim (js '' <a>'') = js ''<a>''"
    by (simp add: js_trim_def js_def cu_def js_whitespace_def)
  have "j_verdict (judgeResponseShape JSON_parse (js '' <a>'')) = V_xml_or_html"
    unfolding judgeResponseShape_not_parsed [of JSON_parse "js '' <a>''", OF JSON_parse_not_json] t
    by (simp add: startsWith_def js_Cons)
  moreover have "\<not> startsWith (js '' <a>'') (cu CHR ''<'')"
    by (simp add: startsWith_def js_Cons)
  ultimately show ?thesis
    using JSON_parse_not_json by simp
qed

text \<open>
  Claim C3, amended. When the body does not parse as JSON, the verdict is \<open>xml_or_html\<close>
  exactly when the body with the whitespace at its ends removed starts with \<open><\<close>, that
  is when \<open><\<close> is its first character that is not whitespace (so also whenever the body
  itself starts with \<open><\<close>); otherwise it is \<open>text\<close> for a body that is not empty and
  \<open>empty\<close> for the empty body.
\<close>

theorem judgeResponseShape_not_json:
  "parse text = None \<Longrightarrow>
   j_verdict (judgeResponseShape parse text) =
     (if startsWith (js_trim text) (cu CHR ''<'') then V_xml_or_html
      else if text \<noteq> [] then V_text else V_empty)
   \<and> (startsWith (js_trim text) (cu CHR ''<'')
        \<longleftrightarrow> startsWith (dropWhile js_whitespace text) (cu CHR ''<''))
   \<and> (startsWith text (cu CHR ''<'') \<longrightarrow>
        j_verdict (judgeResponseShape parse text) = V_xml_or_html)"
  using startsWith_lt_trim [of "text"]
  by (simp add: judgeResponseShape_not_parsed startsWith_js_trim)

theorem judgeResponseShape_not_json_witness:
  "JSON_parse (js ''hello'') = None
   \<and> j_verdict (judgeResponseShape JSON_parse (js ''hello'')) = V_text"
proof -
  have t: "js_trim (js ''hello'') = js ''hello''"
    by (simp add: js_trim_def js_def cu_def js_whitespace_def)
  have n: "\<not> startsWith (js_trim (js ''hello'')) (cu CHR ''<'')"
    unfolding t by (simp add: startsWith_def js_Cons)
  show ?thesis
    using judgeResponseShape_not_json [of JSON_parse "js ''hello''", OF JSON_parse_hello] n
      JSON_parse_hello
    by simp
qed

text \<open>
  Claim C6. \<open>fetchWithTimeout\<close> issues a GET whose abort timer is set to the \<open>ms\<close> it is
  given, which is \<open>TIMEOUT_MS = 10000\<close> in the worker. Whatever the network answers, it
  returns a result and raises nothing: when the request or the reading of the body ends
  in a network error or in the abort of the timer, the result has \<open>ok\<close> false, status 0
  and the message of the error (its \<open>String\<close> when the message is empty); on a response
  whose body arrives, it has the \<open>ok\<close> flag, the status and the body text of the response.
\<close>

theorem fetchWithTimeout_never_raises:
  "req_method (fetchWithTimeout_request url ms) = GET
   \<and> req_url (fetchWithTimeout_request url ms) = url
   \<and> req_abort_after_ms (fetchWithTimeout_request url ms) = ms
   \<and> TIMEOUT_MS = 10000
   \<and> (\<exists>r. fetchWithTimeout url ms outcome = Inr r)
   \<and> fetchWithTimeout url ms (NetworkError e) =
       Inr \<lparr>r_ok = False, r_status = 0, r_text = None,
            r_error = Some (if err_message e \<noteq> [] then err_message e else error_toString e)\<rparr>
   \<and> fetchWithTimeout url ms (TimedOut e) =
       Inr \<lparr>r_ok = False, r_status = 0, r_text = None,
            r_error = Some (if err_message e \<noteq> [] then err_message e else error_toString e)\<rparr>
   \<and> fetchWithTimeout url ms (Response st (BodyFailed e)) =
       Inr \<lparr>r_ok = False, r_status = 0, r_text = None,
            r_error = Some (if err_message e \<noteq> [] then err_message e else error_toString e)\<rparr>
   \<and> fetchWithTimeout url ms (Response st (Body t)) =
       Inr \<lparr>r_ok = res_ok st, r_status = st, r_text = Some t, r_error = None\<rparr>"
  by (simp add: fetchWithTimeout_request_def TIMEOUT_MS_def fetchWithTimeout_def fetch_try_def
        split: fetch_outcome.split body_outcome.split)

theorem fetchWithTimeout_never_raises_witness:
  "fetchWithTimeout (js ''http://a/?ac=videolist&wd=test&pg=1'') TIMEOUT_MS
     (TimedOut (Thrown (js ''AbortError'') (js ''This operation was aborted''))) =
     Inr \<lparr>r_ok = False, r_status = 0, r_text = None,
          r_error = Some (js ''This operation was aborted'')\<rparr>"
  using fetchWithTimeout_never_raises [of "js ''http://a/?ac=videolist&wd=test&pg=1''" TIMEOUT_MS
      "Response 200 (Body [])" "Thrown (js ''AbortError'') (js ''This operation was aborted'')"]
  by simp

section \<open>The pool: what one step does\<close>

text \<open>The key held by a worker that waits for an answer, and all the keys so held.\<close>

fun worker_key :: "worker_state \<Rightarrow> jsstring list" where
  "worker_key (Awaiting key site base testUrl) = [key]"
| "worker_key Returned = []"
| "worker_key (Threw e) = []"

definition held :: "state \<Rightarrow> jsstring list" where
  "held s = concat (map worker_key (workers s))"

text \<open>The request that probes a site: the one \<open>worker\<close> issues for it.\<close>

definition probe_request :: "json \<Rightarrow> request option" where
  "probe_request site =
     map_option (\<lambda>u. fetchWithTimeout_request u TIMEOUT_MS) (buildTestUrl (site_base site))"

lemma fetchWithTimeout_Inr: "\<exists>r. fetchWithTimeout url t outcome = Inr r"
  by (simp add: fetchWithTimeout_def split: sum.split)

lemma worker_enter_Nil: "queue s = [] \<Longrightarrow> worker_enter s = (Returned, s)"
  by (simp add: worker_enter_def)

lemma worker_enter_Cons:
  "queue s = (k, site) # rest \<Longrightarrow>
   \<exists>u. buildTestUrl (site_base site) = Some u \<and>
       worker_enter s =
         (Awaiting k site (site_base site) u,
          s\<lparr>queue := rest, requests := requests s @ [fetchWithTimeout_request u TIMEOUT_MS]\<rparr>)"
  using buildTestUrl_total [of "site_base site"]
  by (auto simp: worker_enter_def Let_def)

lemma worker_enter_effect:
  assumes "worker_enter s = (w, s')"
  shows "results s' = results s \<and> workers s' = workers s \<and> rejection s' = rejection s \<and>
         answered s' = answered s \<and> tested s' = tested s \<and> total s' = total s \<and>
         stdout s' = stdout s \<and>
         (queue s = [] \<and> w = Returned \<and> queue s' = [] \<and> requests s' = requests s \<or>
          (\<exists>k site rest u. queue s = (k, site) # rest \<and> buildTestUrl (site_base site) = Some u \<and>
             w = Awaiting k site (site_base site) u \<and> queue s' = rest \<and>
             requests s' = requests s @ [fetchWithTimeout_request u TIMEOUT_MS]))"
proof (cases "queue s")
  case Nil
  with assms worker_enter_Nil [OF Nil] show ?thesis by auto
next
  case (Cons kv rest)
  obtain k site where kv: "kv = (k, site)" by (cases kv)
  from worker_enter_Cons [of s k site rest] Cons kv obtain u where
    u: "buildTestUrl (site_base site) = Some u"
    and e: "worker_enter s = (Awaiting k site (site_base site) u,
          s\<lparr>queue := rest, requests := requests s @ [fetchWithTimeout_request u TIMEOUT_MS]\<rparr>)"
    by auto
  from e assms have w: "w = Awaiting k site (site_base site) u"
    and s': "s' = s\<lparr>queue := rest, requests := requests s @ [fetchWithTimeout_request u TIMEOUT_MS]\<rparr>"
    by auto
  show ?thesis using Cons kv u w by (simp add: s')
qed

lemma record_probe_Inr:
  assumes "record_probe k site b u r el vd s = Inr s2"
  shows "site \<noteq> JNull \<and> queue s2 = queue s \<and> workers s2 = workers s \<and>
         rejection s2 = rejection s \<and> requests s2 = requests s \<and> answered s2 = answered s \<and>
         tested s2 = tested s + 1 \<and> total s2 = total s \<and>
         (\<exists>rec. results s2 = results s @ [rec] \<and> p_key rec = k \<and> p_base rec = b \<and>
            p_testUrl rec = u \<and> p_verdict rec = fst vd \<and> p_detail rec = snd vd \<and>
            p_status rec = r_status r \<and> p_ms rec = el)"
  using assms
  by (cases vd) (auto simp: record_probe_def Let_def split: if_splits)

lemma record_probe_Inl:
  "record_probe k site b u r el vd s = Inl e \<Longrightarrow> site = JNull \<and> e = TypeError_name_of_null"
  by (cases vd) (auto simp: record_probe_def Let_def split: if_splits)

lemma record_probe_nonnull:
  "site \<noteq> JNull \<Longrightarrow> \<exists>s2. record_probe k site b u r el vd s = Inr s2"
  by (cases vd) (auto simp: record_probe_def Let_def)

lemma record_probe_null:
  "record_probe k JNull b u r el vd s = Inl TypeError_name_of_null"
  by (cases vd) (auto simp: record_probe_def Let_def)

text \<open>The effect of an answer on the shared variables, field by field.\<close>

lemma worker_resume_effect:
  assumes "worker_resume parse s i outcome el = Some s'"
  shows "\<exists>k site b u r.
           i < length (workers s) \<and> workers s ! i = Awaiting k site b u \<and>
           fetchWithTimeout u TIMEOUT_MS outcome = Inr r \<and>
           answered s' = answered s + 1 \<and> total s' = total s \<and>
           (site = JNull \<and> results s' = results s \<and> queue s' = queue s \<and>
              requests s' = requests s \<and> tested s' = tested s \<and>
              workers s' = (workers s)[i := Threw TypeError_name_of_null] \<and>
              rejection s' = Some (case rejection s of None \<Rightarrow> TypeError_name_of_null | Some e \<Rightarrow> e)
            \<or>
            site \<noteq> JNull \<and> rejection s' = rejection s \<and> tested s' = tested s + 1 \<and>
              (\<exists>rec. results s' = results s @ [rec] \<and> p_key rec = k \<and> p_base rec = b \<and>
                 p_testUrl rec = u \<and> p_verdict rec = fst (probe_verdict parse r) \<and>
                 p_detail rec = snd (probe_verdict parse r) \<and> p_status rec = r_status r \<and>
                 p_ms rec = el) \<and>
              (queue s = [] \<and> workers s' = (workers s)[i := Returned] \<and> queue s' = [] \<and>
                 requests s' = requests s
               \<or>
               (\<exists>k' site' rest u'. queue s = (k', site') # rest \<and>
                  buildTestUrl (site_base site') = Some u' \<and>
                  workers s' = (workers s)[i := Awaiting k' site' (site_base site') u'] \<and>
                  queue s' = rest \<and>
                  requests s' = requests s @ [fetchWithTimeout_request u' TIMEOUT_MS])))"
proof -
  from assms have i: "i < length (workers s)"
    by (simp add: worker_resume_def split: if_splits)
  from assms i obtain k site b u where w: "workers s ! i = Awaiting k site b u"
    by (cases "workers s ! i") (simp_all add: worker_resume_def)
  obtain r where r: "fetchWithTimeout u TIMEOUT_MS outcome = Inr r"
    using fetchWithTimeout_Inr by blast
  define s0 where "s0 = s\<lparr>answered := answered s + 1\<rparr>"
  show ?thesis
  proof (cases "site = JNull")
    case True
    have "s' = (snd (raise TypeError_name_of_null s0))
                 \<lparr>workers := (workers (snd (raise TypeError_name_of_null s0)))
                    [i := fst (raise TypeError_name_of_null s0)]\<rparr>"
      using assms i w r True
      by (simp add: worker_resume_def Let_def s0_def record_probe_null split: prod.splits)
    then show ?thesis
      using i w r True
      by (auto simp: raise_def s0_def split: option.splits)
  next
    case False
    then obtain s2 where s2: "record_probe k site b u r el (probe_verdict parse r) s0 = Inr s2"
      using record_probe_nonnull by blast
    obtain w' s3 where e: "worker_enter s2 = (w', s3)" by (cases "worker_enter s2")
    have s': "s' = s3\<lparr>workers := (workers s3)[i := w']\<rparr>"
      using assms i w r s2 e by (simp add: worker_resume_def Let_def s0_def)
    note p = record_probe_Inr [OF s2]
    note q = worker_enter_effect [OF e]
    have f0: "queue s0 = queue s" "workers s0 = workers s" "rejection s0 = rejection s"
      "requests s0 = requests s" "answered s0 = answered s + 1" "tested s0 = tested s"
      "total s0 = total s" "results s0 = results s"
      by (simp_all add: s0_def)
    show ?thesis
      using i w r False p q f0 by (simp add: s') metis
  qed
qed


section \<open>The pool: what every run keeps\<close>

text \<open>
  While no worker has raised, every configured key is in exactly one place: in a
  recorded result, with a worker that waits for the answer, or still in the queue. A
  worker returns only on an empty queue. The requests issued so far and those the queue
  still asks for are, in order, the requests of the entries. Every request not yet
  answered is held by one waiting worker.
\<close>

definition pool_inv :: "(jsstring \<times> json) list \<Rightarrow> state \<Rightarrow> bool" where
  "pool_inv entries s \<longleftrightarrow>
     (rejection s = None \<longrightarrow>
        mset (map p_key (results s)) + mset (held s) + mset (map fst (queue s))
          = mset (map fst entries))
     \<and> (Returned \<in> set (workers s) \<longrightarrow> queue s = [])
     \<and> map Some (requests s) @ map (\<lambda>kv. probe_request (snd kv)) (queue s)
          = map (\<lambda>kv. probe_request (snd kv)) entries
     \<and> answered s + length (held s) = length (requests s)
     \<and> tested s = length (results s)"

lemma held_update:
  assumes "i < length ws"
  shows "mset (concat (map worker_key (ws[i := w]))) + mset (worker_key (ws ! i))
           = mset (concat (map worker_key ws)) + mset (worker_key w)"
proof -
  have a: "ws[i := w] = take i ws @ w # drop (Suc i) ws"
    using assms by (rule upd_conv_take_nth_drop)
  have b: "ws = take i ws @ ws ! i # drop (Suc i) ws"
    using assms by (simp add: id_take_nth_drop [symmetric])
  have "mset (concat (map worker_key ws)) =
          mset (concat (map worker_key (take i ws @ ws ! i # drop (Suc i) ws)))"
    using b by simp
  then show ?thesis by (simp add: a)
qed

lemma held_update_length:
  assumes "i < length ws"
  shows "length (concat (map worker_key (ws[i := w]))) + length (worker_key (ws ! i))
           = length (concat (map worker_key ws)) + length (worker_key w)"
proof -
  have "size (mset (concat (map worker_key (ws[i := w]))) + mset (worker_key (ws ! i)))
          = size (mset (concat (map worker_key ws)) + mset (worker_key w))"
    using held_update [OF assms] by simp
  then show ?thesis by simp
qed

lemma Returned_update:
  "Returned \<in> set (ws[i := w]) \<Longrightarrow> w = Returned \<or> Returned \<in> set ws"
  using set_update_subset_insert [of ws i w] by auto

lemma probe_request_Some:
  "buildTestUrl (site_base site) = Some u \<Longrightarrow>
   probe_request site = Some (fetchWithTimeout_request u TIMEOUT_MS)"
  by (simp add: probe_request_def)

lemma pool_inv_init: "pool_inv entries (init_state entries)"
  by (simp add: pool_inv_def init_state_def held_def)

lemma spawn_Nil: "queue s = [] \<Longrightarrow> spawn s = s\<lparr>workers := workers s @ [Returned]\<rparr>"
  by (simp add: spawn_def worker_enter_Nil)

lemma spawn_Cons:
  "queue s = (k, site) # rest \<Longrightarrow>
   \<exists>u. buildTestUrl (site_base site) = Some u \<and>
       spawn s = s\<lparr>queue := rest,
                   requests := requests s @ [fetchWithTimeout_request u TIMEOUT_MS],
                   workers := workers s @ [Awaiting k site (site_base site) u]\<rparr>"
  using worker_enter_Cons [of s k site rest] by (auto simp: spawn_def)

lemma pool_inv_spawn:
  assumes "pool_inv entries s"
  shows "pool_inv entries (spawn s)"
proof (cases "queue s")
  case Nil
  with assms show ?thesis
    by (simp add: spawn_Nil pool_inv_def held_def)
next
  case (Cons kv rest)
  obtain k site where kv: "kv = (k, site)" by (cases kv)
  from spawn_Cons [of s k site rest] Cons kv obtain u where
    u: "buildTestUrl (site_base site) = Some u"
    and sp: "spawn s = s\<lparr>queue := rest,
                   requests := requests s @ [fetchWithTimeout_request u TIMEOUT_MS],
                   workers := workers s @ [Awaiting k site (site_base site) u]\<rparr>"
    by auto
  from assms Cons have nr: "Returned \<notin> set (workers s)"
    by (auto simp: pool_inv_def)
  from assms have rq: "map Some (requests s) @ map (\<lambda>kv. probe_request (snd kv)) (queue s)
          = map (\<lambda>kv. probe_request (snd kv)) entries"
    by (simp add: pool_inv_def)
  show ?thesis
    using assms Cons kv nr rq probe_request_Some [OF u]
    by (simp add: sp pool_inv_def held_def)
qed

lemma pool_inv_spawn_workers: "pool_inv entries s \<Longrightarrow> pool_inv entries (spawn_workers n s)"
  by (induction n arbitrary: s) (simp_all add: pool_inv_spawn)

lemma pool_inv_start: "pool_inv entries (start_pool entries)"
  by (simp add: start_pool_def pool_inv_spawn_workers pool_inv_init)

lemma pool_inv_resume:
  assumes inv: "pool_inv entries s"
    and step: "worker_resume parse s i outcome el = Some s'"
  shows "pool_inv entries s'"
proof -
  from worker_resume_effect [OF step] obtain k site b u r where
    i: "i < length (workers s)" and w: "workers s ! i = Awaiting k site b u"
    and an: "answered s' = answered s + 1"
    and cases: "site = JNull \<and> results s' = results s \<and> queue s' = queue s \<and>
              requests s' = requests s \<and> tested s' = tested s \<and>
              workers s' = (workers s)[i := Threw TypeError_name_of_null] \<and>
              rejection s' = Some (case rejection s of None \<Rightarrow> TypeError_name_of_null | Some e \<Rightarrow> e)
            \<or>
            site \<noteq> JNull \<and> rejection s' = rejection s \<and> tested s' = tested s + 1 \<and>
              (\<exists>rec. results s' = results s @ [rec] \<and> p_key rec = k) \<and>
              (queue s = [] \<and> workers s' = (workers s)[i := Returned] \<and> queue s' = [] \<and>
                 requests s' = requests s
               \<or>
               (\<exists>k' site' rest u'. queue s = (k', site') # rest \<and>
                  buildTestUrl (site_base site') = Some u' \<and>
                  workers s' = (workers s)[i := Awaiting k' site' (site_base site') u'] \<and>
                  queue s' = rest \<and>
                  requests s' = requests s @ [fetchWithTimeout_request u' TIMEOUT_MS]))"
    by blast
  have hk: "worker_key (workers s ! i) = [k]" by (simp add: w)
  from cases consider
    (null) "results s' = results s" "queue s' = queue s" "requests s' = requests s"
      "tested s' = tested s" "workers s' = (workers s)[i := Threw TypeError_name_of_null]"
      "rejection s' \<noteq> None"
  | (last) rec where "rejection s' = rejection s" "tested s' = tested s + 1"
      "results s' = results s @ [rec]" "p_key rec = k" "queue s = []"
      "workers s' = (workers s)[i := Returned]" "queue s' = []" "requests s' = requests s"
  | (more) rec k' site' rest u' where "rejection s' = rejection s" "tested s' = tested s + 1"
      "results s' = results s @ [rec]" "p_key rec = k" "queue s = (k', site') # rest"
      "buildTestUrl (site_base site') = Some u'"
      "workers s' = (workers s)[i := Awaiting k' site' (site_base site') u']"
      "queue s' = rest" "requests s' = requests s @ [fetchWithTimeout_request u' TIMEOUT_MS]"
    by auto
  then show ?thesis
  proof cases
    case null
    have l: "length (held s') + 1 = length (held s)"
      using held_update_length [OF i, of "Threw TypeError_name_of_null"] hk
      by (simp add: held_def null)
    have "Returned \<in> set (workers s') \<Longrightarrow> Returned \<in> set (workers s)"
      using Returned_update [of "workers s" i "Threw TypeError_name_of_null"] by (auto simp: null)
    then show ?thesis
      using inv null an l by (auto simp: pool_inv_def)
  next
    case last
    have m: "mset (held s') + {#k#} = mset (held s)"
      using held_update [OF i, of Returned] hk by (simp add: held_def last)
    then have l: "length (held s') + 1 = length (held s)"
      by (metis size_mset size_union size_single)
    have ms: "rejection s' = None \<Longrightarrow>
        mset (map p_key (results s')) + mset (held s') + mset (map fst (queue s'))
          = mset (map fst entries)"
    proof -
      assume "rejection s' = None"
      then have "mset (map p_key (results s)) + mset (held s) + mset (map fst (queue s))
          = mset (map fst entries)"
        using inv last by (simp add: pool_inv_def)
      then have "mset (map p_key (results s)) + (mset (held s') + {#k#}) + {#}
          = mset (map fst entries)"
        by (simp add: last m [symmetric])
      then show ?thesis by (simp add: last)
    qed
    have "Returned \<in> set (workers s') \<Longrightarrow> queue s' = []"
      by (simp add: last)
    then show ?thesis
      using inv last an l ms by (simp add: pool_inv_def)
  next
    case more
    have m: "mset (held s') + {#k#} = mset (held s) + {#k'#}"
      using held_update [OF i, of "Awaiting k' site' (site_base site') u'"] hk
      by (simp add: held_def more)
    then have l: "length (held s') = length (held s)"
      by (metis add_right_cancel size_mset size_union size_single)
    have nr: "Returned \<notin> set (workers s)"
      using inv more by (auto simp: pool_inv_def)
    then have nr': "Returned \<notin> set (workers s')"
      using Returned_update [of "workers s" i "Awaiting k' site' (site_base site') u'"]
      by (auto simp: more)
    have rq: "map Some (requests s') @ map (\<lambda>kv. probe_request (snd kv)) (queue s')
          = map (\<lambda>kv. probe_request (snd kv)) entries"
      using inv more probe_request_Some [OF more(6)] by (simp add: pool_inv_def)
    have ms: "rejection s' = None \<Longrightarrow>
        mset (map p_key (results s')) + mset (held s') + mset (map fst (queue s'))
          = mset (map fst entries)"
    proof -
      assume "rejection s' = None"
      then have "mset (map p_key (results s)) + mset (held s) + mset (map fst (queue s))
          = mset (map fst entries)"
        using inv more by (simp add: pool_inv_def)
      then have "mset (map p_key (results s)) + (mset (held s) + {#k'#}) + mset (map fst rest)
          = mset (map fst entries)"
        by (simp add: more)
      then have "mset (map p_key (results s)) + (mset (held s') + {#k#}) + mset (map fst rest)
          = mset (map fst entries)"
        by (simp only: m)
      then show ?thesis by (simp add: more)
    qed
    show ?thesis
      using inv more an l nr' rq ms by (simp add: pool_inv_def)
  qed
qed

lemma pool_inv_run:
  "pool_inv entries s \<Longrightarrow> run_events parse es s = Some s' \<Longrightarrow> pool_inv entries s'"
proof (induction es arbitrary: s)
  case Nil
  then show ?case by simp
next
  case (Cons e es)
  obtain i outcome el where e: "e = Answer i outcome el" by (cases e)
  from Cons.prems(2) obtain s1 where
    s1: "worker_resume parse s i outcome el = Some s1" and rest: "run_events parse es s1 = Some s'"
    by (auto simp: e split: option.splits)
  from pool_inv_resume [OF Cons.prems(1) s1] rest show ?case
    by (rule Cons.IH)
qed

lemma worker_resume_Some:
  "i < length (workers s) \<Longrightarrow> workers s ! i = Awaiting k site b u \<Longrightarrow>
   \<exists>s'. worker_resume parse s i outcome el = Some s'"
  by (simp add: worker_resume_def Let_def split: prod.splits)

lemma length_workers_spawn: "length (workers (spawn s)) = Suc (length (workers s))"
proof (cases "queue s")
  case Nil
  then show ?thesis by (simp add: spawn_Nil)
next
  case (Cons kv rest)
  obtain k site where "kv = (k, site)" by (cases kv)
  with Cons spawn_Cons [of s k site rest] show ?thesis by auto
qed

lemma length_workers_spawn_workers:
  "length (workers (spawn_workers n s)) = length (workers s) + n"
  by (induction n arbitrary: s) (simp_all add: length_workers_spawn)

lemma length_workers_start: "length (workers (start_pool entries)) = CONCURRENCY"
  by (simp add: start_pool_def length_workers_spawn_workers init_state_def)

lemma length_workers_resume:
  "worker_resume parse s i outcome el = Some s' \<Longrightarrow> length (workers s') = length (workers s)"
  using worker_resume_effect [of parse s i outcome el s'] by auto

lemma length_workers_run:
  "run_events parse es s = Some s' \<Longrightarrow> length (workers s') = length (workers s)"
proof (induction es arbitrary: s)
  case Nil
  then show ?case by simp
next
  case (Cons e es)
  obtain i outcome el where e: "e = Answer i outcome el" by (cases e)
  from Cons.prems obtain s1 where
    s1: "worker_resume parse s i outcome el = Some s1" and rest: "run_events parse es s1 = Some s'"
    by (auto simp: e split: option.splits)
  from Cons.IH [OF rest] length_workers_resume [OF s1] show ?case by simp
qed

lemma answered_spawn: "answered (spawn s) = answered s"
proof (cases "queue s")
  case Nil
  then show ?thesis by (simp add: spawn_Nil)
next
  case (Cons kv rest)
  obtain k site where "kv = (k, site)" by (cases kv)
  with Cons spawn_Cons [of s k site rest] show ?thesis by auto
qed

lemma answered_spawn_workers: "answered (spawn_workers n s) = answered s"
  by (induction n arbitrary: s) (simp_all add: answered_spawn)

lemma answered_start: "answered (start_pool entries) = 0"
  by (simp add: start_pool_def answered_spawn_workers init_state_def)

text \<open>Every event of a run is the answer to one request.\<close>

lemma answered_run:
  "run_events parse es s = Some s' \<Longrightarrow> answered s' = answered s + length es"
proof (induction es arbitrary: s)
  case Nil
  then show ?case by simp
next
  case (Cons e es)
  obtain i outcome el where e: "e = Answer i outcome el" by (cases e)
  from Cons.prems obtain s1 where
    s1: "worker_resume parse s i outcome el = Some s1" and rest: "run_events parse es s1 = Some s'"
    by (auto simp: e split: option.splits)
  from worker_resume_effect [OF s1] have "answered s1 = answered s + 1" by auto
  with Cons.IH [OF rest] show ?case by simp
qed

lemma length_worker_keys: "length (concat (map worker_key ws)) \<le> length ws"
proof (induction ws)
  case Nil
  then show ?case by simp
next
  case (Cons w ws)
  then show ?case by (cases w) simp_all
qed

lemma held_le_workers: "length (held s) \<le> length (workers s)"
  by (simp add: held_def length_worker_keys)

lemma in_flight_held: "pool_inv entries s \<Longrightarrow> in_flight s = length (held s)"
proof -
  assume "pool_inv entries s"
  then have "answered s + length (held s) = length (requests s)"
    by (simp add: pool_inv_def)
  then show ?thesis by (simp add: in_flight_def)
qed

lemma in_flight_le_workers: "pool_inv entries s \<Longrightarrow> in_flight s \<le> length (workers s)"
  using held_le_workers [of s] by (simp add: in_flight_held)

text \<open>
  When the queue has at least \<open>n\<close> entries, each of the next \<open>n\<close> workers takes one and
  waits.
\<close>

lemma held_spawn_workers:
  "n \<le> length (queue s) \<Longrightarrow> length (held (spawn_workers n s)) = length (held s) + n"
proof (induction n arbitrary: s)
  case 0
  then show ?case by simp
next
  case (Suc n)
  then obtain kv rest where q: "queue s = kv # rest" by (cases "queue s") auto
  obtain k site where kv: "kv = (k, site)" by (cases kv)
  from spawn_Cons [of s k site rest] q kv obtain u where
    sp: "spawn s = s\<lparr>queue := rest,
                   requests := requests s @ [fetchWithTimeout_request u TIMEOUT_MS],
                   workers := workers s @ [Awaiting k site (site_base site) u]\<rparr>"
    by auto
  have "n \<le> length (queue (spawn s))" using Suc.prems q by (simp add: sp)
  from Suc.IH [OF this] show ?case by (simp add: sp held_def)
qed

text \<open>
  Claim C7. The number of requests in flight (issued and not yet answered) never
  exceeds the bound \<open>CONCURRENCY = 8\<close>: not while the workers are started one after the
  other, and not after any sequence of answers, in whatever order they arrive. For a
  set of endpoints at least as large as the bound, the bound is reached as soon as the
  pool has started.
\<close>

theorem in_flight_bounded:
  "CONCURRENCY = 8
   \<and> (k \<le> CONCURRENCY \<longrightarrow> in_flight (spawn_workers k (init_state entries)) \<le> CONCURRENCY)
   \<and> (run_events parse es (start_pool entries) = Some s \<longrightarrow> in_flight s \<le> CONCURRENCY)
   \<and> (CONCURRENCY \<le> length entries \<longrightarrow> in_flight (start_pool entries) = CONCURRENCY)"
proof -
  have a: "k \<le> CONCURRENCY \<Longrightarrow> in_flight (spawn_workers k (init_state entries)) \<le> CONCURRENCY"
  proof -
    assume k: "k \<le> CONCURRENCY"
    have "pool_inv entries (spawn_workers k (init_state entries))"
      by (simp add: pool_inv_spawn_workers pool_inv_init)
    from in_flight_le_workers [OF this] k show ?thesis
      by (simp add: length_workers_spawn_workers init_state_def)
  qed
  have b: "run_events parse es (start_pool entries) = Some s \<Longrightarrow> in_flight s \<le> CONCURRENCY"
  proof -
    assume r: "run_events parse es (start_pool entries) = Some s"
    have "pool_inv entries s"
      using pool_inv_start r by (rule pool_inv_run)
    from in_flight_le_workers [OF this] length_workers_run [OF r] show ?thesis
      by (simp add: length_workers_start)
  qed
  have c: "CONCURRENCY \<le> length entries \<Longrightarrow> in_flight (start_pool entries) = CONCURRENCY"
  proof -
    assume "CONCURRENCY \<le> length entries"
    then have "length (held (start_pool entries)) = CONCURRENCY"
      using held_spawn_workers [of CONCURRENCY "init_state entries"]
      by (simp add: start_pool_def init_state_def held_def)
    then show ?thesis using in_flight_held [OF pool_inv_start, of entries] by simp
  qed
  from a b c show ?thesis by (simp add: CONCURRENCY_def)
qed

section \<open>The keys of the entries\<close>

lemma unat_digit: "d < 10 \<Longrightarrow> unat (digit d) = 48 + d"
proof -
  assume "d < 10"
  then have "48 + d < 2 ^ LENGTH(16)" by simp
  then show ?thesis by (simp only: digit_def unat_of_nat mod_less)
qed

lemma decimal_value: "foldl (\<lambda>a c. 10 * a + (unat c - 48)) 0 (decimal n) = n"
proof (induction n rule: decimal.induct)
  case (1 n)
  show ?case
  proof (cases "n < 10")
    case True
    then show ?thesis by (simp add: decimal.simps [of n] unat_digit)
  next
    case False
    with 1 show ?thesis by (simp add: decimal.simps [of n] unat_digit)
  qed
qed

lemma inj_decimal: "inj decimal"
  by (rule inj_on_inverseI [where g = "foldl (\<lambda>a c. 10 * a + (unat c - 48)) 0"])
    (rule decimal_value)

lemma distinct_decimal: "distinct (map decimal [i ..< j])"
  by (simp add: distinct_map inj_on_subset [OF inj_decimal])

lemma index_entries_keys: "map fst (index_entries i xs) = map decimal [i ..< i + length xs]"
proof (induction xs arbitrary: i)
  case Nil
  then show ?case by simp
next
  case (Cons x xs)
  have "[i ..< i + length (x # xs)] = i # [Suc i ..< Suc i + length xs]"
    by (simp add: upt_rec)
  with Cons [of "Suc i"] show ?case by simp
qed

lemma own_props_keys_subset: "fst ` set (own_props kvs) \<subseteq> fst ` set kvs"
proof (induction kvs rule: own_props.induct)
  case 1
  then show ?case by simp
next
  case (2 k v kvs)
  then show ?case by auto
qed

lemma own_props_distinct: "distinct (map fst (own_props kvs))"
proof (induction kvs rule: own_props.induct)
  case 1
  then show ?case by simp
next
  case (2 k v kvs)
  have "k \<notin> fst ` set (own_props (filter (\<lambda>kv. fst kv \<noteq> k) kvs))"
    using own_props_keys_subset [of "filter (\<lambda>kv. fst kv \<noteq> k) kvs"] by auto
  with 2 show ?case by simp
qed

lemma index_entries_distinct: "distinct (map fst (index_entries i xs))"
  by (simp only: index_entries_keys distinct_decimal)

lemma Object_entries_distinct: "Object_entries v = Some es \<Longrightarrow> distinct (map fst es)"
  using index_entries_distinct own_props_distinct by (cases v) auto

section \<open>The program: its runs\<close>

definition no_entries_run :: run where
  "no_entries_run =
     \<lparr>exit_code = 0, out = [Line (js ''No api_site entries found.'')], err = [], issued = [],
      collected = [], written = None, escaped = None\<rparr>"

lemma main_no_entries_run:
  assumes "env_config env = Contents raw" "parse raw = Some cfg"
    "Object_entries (sites_of cfg) = Some []"
  shows "main parse env = Some no_entries_run"
  using assms by (simp add: main_def no_entries_run_def)

lemma main_pool:
  assumes "env_config env = Contents raw" "parse raw = Some cfg"
    "Object_entries (sites_of cfg) = Some entries" "entries \<noteq> []"
  shows "main parse env =
     (case run_events parse (env_answers env) (start_pool entries) of
        None \<Rightarrow> None
      | Some s \<Rightarrow>
          (case rejection s of
             Some e \<Rightarrow> Some (main_rejected e (stdout s) (requests s) (results s))
           | None \<Rightarrow> if all_returned s then Some (finish env s) else None))"
  using assms by (simp add: main_def)

lemma exit_code_main_rejected: "exit_code (main_rejected e ls rq rs) = 1"
  by (simp add: main_rejected_def)

lemma escaped_main_rejected: "escaped (main_rejected e ls rq rs) = Some e"
  by (simp add: main_rejected_def)

lemma finish_cases:
  "env_write_error env = None \<and> exit_code (finish env s) = 0 \<and> escaped (finish env s) = None \<and>
     collected (finish env s) = results s \<and> issued (finish env s) = requests s \<and>
     written (finish env s) = Some \<lparr>rep_when = env_now env, rep_results = results s\<rparr>
   \<or> (\<exists>e. env_write_error env = Some e \<and> exit_code (finish env s) = 1 \<and>
          escaped (finish env s) = Some e \<and> written (finish env s) = None)"
  by (cases "env_write_error env") (simp_all add: finish_def main_rejected_def)

text \<open>
  A run of \<open>main\<close> over a configuration with entries that ends with exit status 0 is a
  run of the pool in which no worker has raised and every worker has returned, and the
  report has been written.
\<close>

lemma main_exit_0:
  assumes "env_config env = Contents raw" "parse raw = Some cfg"
    "Object_entries (sites_of cfg) = Some entries" "entries \<noteq> []"
    "main parse env = Some r" "exit_code r = 0"
  shows "\<exists>s. run_events parse (env_answers env) (start_pool entries) = Some s \<and>
             rejection s = None \<and> all_returned s \<and> r = finish env s \<and>
             env_write_error env = None"
proof -
  note mp = main_pool [where parse = parse and env = env, OF assms(1-4)]
  from assms(5) obtain s where run: "run_events parse (env_answers env) (start_pool entries) = Some s"
    unfolding mp by (auto split: option.splits)
  have rej: "rejection s = None"
  proof (cases "rejection s")
    case (Some e)
    with assms(5) run have "r = main_rejected e (stdout s) (requests s) (results s)"
      unfolding mp by simp
    with assms(6) show ?thesis by (simp add: exit_code_main_rejected)
  qed simp
  from assms(5) run rej have ret: "all_returned s" and r: "r = finish env s"
    unfolding mp by (auto split: if_splits)
  from finish_cases [of env s] assms(6) r have "env_write_error env = None" by auto
  with run rej ret r show ?thesis by blast
qed

lemma all_returned_held: "all_returned s \<Longrightarrow> held s = []"
  by (auto simp: all_returned_def held_def list_all_iff)

lemma all_returned_queue:
  assumes "pool_inv entries s" "all_returned s" "0 < length (workers s)"
  shows "queue s = []"
proof -
  from assms(3) obtain w ws where "workers s = w # ws" by (cases "workers s") auto
  with assms(2) have "Returned \<in> set (workers s)" by (auto simp: all_returned_def)
  with assms(1) show ?thesis by (simp add: pool_inv_def)
qed

text \<open>
  Claim C1. When a run over the configured entries completes (\<open>main\<close> returns and the
  process ends with status 0), \<open>results\<close> holds exactly one result for each configured
  key: the keys of the results are the keys of the entries, each once. The requests
  issued during the run are, in order, the one request of each entry, and the network
  has given as many answers as there are entries, so every endpoint has been probed
  once and none again. The answers of the network are arbitrary, so this holds however
  many probes fail.
\<close>

theorem one_result_per_endpoint:
  assumes "env_config env = Contents raw" "parse raw = Some cfg"
    "Object_entries (sites_of cfg) = Some entries"
    "main parse env = Some r" "exit_code r = 0"
  shows "mset (map p_key (collected r)) = mset (map fst entries)
         \<and> distinct (map p_key (collected r))
         \<and> length (collected r) = length entries
         \<and> map Some (issued r) = map (\<lambda>kv. probe_request (snd kv)) entries
         \<and> length (issued r) = length entries
         \<and> (entries = [] \<or> length (env_answers env) = length entries)"
proof (cases "entries = []")
  case True
  with assms(1-4) main_no_entries_run [where parse = parse and env = env and raw = raw and cfg = cfg]
  have "r = no_entries_run" by simp
  with True show ?thesis by (simp add: no_entries_run_def)
next
  case False
  from main_exit_0 [OF assms(1-3) False assms(4,5)] obtain s where
    run: "run_events parse (env_answers env) (start_pool entries) = Some s"
    and rej: "rejection s = None" and ret: "all_returned s" and r: "r = finish env s"
    and wr: "env_write_error env = None"
    by blast
  have inv: "pool_inv entries s"
    using pool_inv_start run by (rule pool_inv_run)
  have "0 < length (workers s)"
    using length_workers_run [OF run] by (simp add: length_workers_start CONCURRENCY_def)
  with inv ret have q: "queue s = []" by (rule all_returned_queue)
  have h: "held s = []" using ret by (rule all_returned_held)
  from inv rej q h have keys: "mset (map p_key (results s)) = mset (map fst entries)"
    by (simp add: pool_inv_def)
  from inv q have reqs: "map Some (requests s) = map (\<lambda>kv. probe_request (snd kv)) entries"
    by (simp add: pool_inv_def)
  have d: "distinct (map fst entries)"
    using assms(3) by (rule Object_entries_distinct)
  have d': "distinct (map p_key (results s))"
    using keys d by (metis mset_eq_imp_distinct_iff)
  have l: "length (results s) = length entries"
    using keys by (metis length_map size_mset)
  have l': "length (requests s) = length entries"
    using reqs by (metis length_map)
  from inv h have "answered s = length (requests s)"
    by (simp add: pool_inv_def)
  with answered_run [OF run] l' have a: "length (env_answers env) = length entries"
    by (simp add: answered_start)
  from finish_cases [of env s] wr have "collected r = results s" "issued r = requests s"
    by (auto simp: r)
  with keys d' l reqs l' a show ?thesis by simp
qed

section \<open>Entries that are not null\<close>

fun worker_ok :: "worker_state \<Rightarrow> bool" where
  "worker_ok (Awaiting key site base testUrl) = (site \<noteq> JNull)"
| "worker_ok Returned = True"
| "worker_ok (Threw e) = False"

definition sites_ok :: "state \<Rightarrow> bool" where
  "sites_ok s \<longleftrightarrow>
     rejection s = None \<and> JNull \<notin> snd ` set (queue s) \<and> list_all worker_ok (workers s)"

lemma sites_ok_init: "JNull \<notin> snd ` set entries \<Longrightarrow> sites_ok (init_state entries)"
  by (simp add: sites_ok_def init_state_def)

lemma sites_ok_spawn:
  assumes "sites_ok s"
  shows "sites_ok (spawn s)"
proof (cases "queue s")
  case Nil
  with assms show ?thesis by (simp add: spawn_Nil sites_ok_def)
next
  case (Cons kv rest)
  obtain k site where kv: "kv = (k, site)" by (cases kv)
  from spawn_Cons [of s k site rest] Cons kv obtain u where
    sp: "spawn s = s\<lparr>queue := rest,
                   requests := requests s @ [fetchWithTimeout_request u TIMEOUT_MS],
                   workers := workers s @ [Awaiting k site (site_base site) u]\<rparr>"
    by auto
  from assms Cons kv show ?thesis by (auto simp: sp sites_ok_def)
qed

lemma sites_ok_spawn_workers: "sites_ok s \<Longrightarrow> sites_ok (spawn_workers n s)"
  by (induction n arbitrary: s) (simp_all add: sites_ok_spawn)

lemma sites_ok_start: "JNull \<notin> snd ` set entries \<Longrightarrow> sites_ok (start_pool entries)"
  by (simp add: start_pool_def sites_ok_spawn_workers sites_ok_init)

lemma list_all_update: "list_all P ws \<Longrightarrow> P w \<Longrightarrow> list_all P (ws[i := w])"
  using set_update_subset_insert [of ws i w] by (auto simp: list_all_iff)

lemma sites_ok_resume:
  assumes ok: "sites_ok s" and step: "worker_resume parse s i outcome el = Some s'"
  shows "sites_ok s'"
proof -
  from worker_resume_effect [OF step] obtain k site b u where
    i: "i < length (workers s)" and w: "workers s ! i = Awaiting k site b u"
    and cases: "site = JNull
            \<or>
            site \<noteq> JNull \<and> rejection s' = rejection s \<and>
              (queue s = [] \<and> workers s' = (workers s)[i := Returned] \<and> queue s' = []
               \<or>
               (\<exists>k' site' rest u'. queue s = (k', site') # rest \<and>
                  workers s' = (workers s)[i := Awaiting k' site' (site_base site') u'] \<and>
                  queue s' = rest))"
    by blast
  from ok i have "worker_ok (workers s ! i)"
    by (simp add: sites_ok_def list_all_length)
  with w have "site \<noteq> JNull" by simp
  with cases consider
    (last) "rejection s' = rejection s" "queue s = []" "workers s' = (workers s)[i := Returned]"
      "queue s' = []"
  | (more) k' site' rest u' where "rejection s' = rejection s" "queue s = (k', site') # rest"
      "workers s' = (workers s)[i := Awaiting k' site' (site_base site') u']" "queue s' = rest"
    by auto
  then show ?thesis
  proof cases
    case last
    with ok show ?thesis by (simp add: sites_ok_def list_all_update)
  next
    case more
    with ok have "site' \<noteq> JNull" by (auto simp: sites_ok_def)
    with ok more show ?thesis by (auto simp: sites_ok_def list_all_update)
  qed
qed

lemma sites_ok_run: "sites_ok s \<Longrightarrow> run_events parse es s = Some s' \<Longrightarrow> sites_ok s'"
proof (induction es arbitrary: s)
  case Nil
  then show ?case by simp
next
  case (Cons e es)
  obtain i outcome el where e: "e = Answer i outcome el" by (cases e)
  from Cons.prems(2) obtain s1 where
    s1: "worker_resume parse s i outcome el = Some s1" and rest: "run_events parse es s1 = Some s'"
    by (auto simp: e split: option.splits)
  from sites_ok_resume [OF Cons.prems(1) s1] rest show ?case
    by (rule Cons.IH)
qed

text \<open>
  A run over entries that are not \<open>null\<close> cannot get stuck and cannot go on for ever:
  while fewer answers have arrived than there are entries, some worker waits for one,
  and any answer to it is a step of the run; once as many answers have arrived as there
  are entries, every worker has returned.
\<close>

lemma worker_ok_cases:
  "worker_ok w \<Longrightarrow> w = Returned \<or> (\<exists>k site b u. w = Awaiting k site b u)"
  by (cases w) auto

lemma requests_queue_length:
  "pool_inv entries s \<Longrightarrow> length (requests s) + length (queue s) = length entries"
proof -
  assume "pool_inv entries s"
  then have "map Some (requests s) @ map (\<lambda>kv. probe_request (snd kv)) (queue s)
          = map (\<lambda>kv. probe_request (snd kv)) entries"
    by (simp add: pool_inv_def)
  then have "length (map Some (requests s) @ map (\<lambda>kv. probe_request (snd kv)) (queue s))
          = length (map (\<lambda>kv. probe_request (snd kv)) entries)"
    by (rule arg_cong)
  then show ?thesis by simp
qed

lemma held_Nil_iff: "held s = [] \<longleftrightarrow> (\<forall>w \<in> set (workers s). worker_key w = [])"
  by (simp add: held_def)

lemma pool_progress:
  assumes nn: "JNull \<notin> snd ` set entries"
    and run: "run_events parse es (start_pool entries) = Some s"
    and less: "length es < length entries"
  shows "\<exists>i k site b u. i < length (workers s) \<and> workers s ! i = Awaiting k site b u \<and>
           (\<forall>outcome el. \<exists>s'. run_events parse (es @ [Answer i outcome el]) (start_pool entries)
                                   = Some s')"
proof -
  have inv: "pool_inv entries s" using pool_inv_start run by (rule pool_inv_run)
  have ok: "sites_ok s" using sites_ok_start [OF nn] run by (rule sites_ok_run)
  have lw: "length (workers s) = CONCURRENCY"
    using length_workers_run [OF run] by (simp add: length_workers_start)
  have an: "answered s = length es"
    using answered_run [OF run] by (simp add: answered_start)
  have acc: "answered s + length (held s) = length (requests s)"
    using inv by (simp add: pool_inv_def)
  have "held s \<noteq> []"
  proof (cases "queue s")
    case Nil
    with requests_queue_length [OF inv] have "length (requests s) = length entries" by simp
    with an acc less have "0 < length (held s)" by linarith
    then show ?thesis by auto
  next
    case (Cons kv rest)
    with inv have nr: "Returned \<notin> set (workers s)" by (auto simp: pool_inv_def)
    from lw obtain w ws where w: "workers s = w # ws"
      by (cases "workers s") (auto simp: CONCURRENCY_def)
    with ok have "worker_ok w" by (simp add: sites_ok_def)
    with worker_ok_cases [of w] nr w obtain k site b u where "w = Awaiting k site b u"
      by auto
    with w show ?thesis by (simp add: held_def)
  qed
  then obtain w where w: "w \<in> set (workers s)" "worker_key w \<noteq> []"
    by (auto simp: held_Nil_iff)
  from w(2) obtain k site b u where aw: "w = Awaiting k site b u" by (cases w) auto
  from w(1) obtain i where i: "i < length (workers s)" "workers s ! i = w"
    by (auto simp: in_set_conv_nth)
  have "\<exists>s'. run_events parse (es @ [Answer i outcome el]) (start_pool entries) = Some s'"
    for outcome el
  proof -
    from worker_resume_Some [of i s k site b u parse outcome el] i aw obtain s' where
      "worker_resume parse s i outcome el = Some s'"
      by auto
    moreover have "run_events parse (es @ [Answer i outcome el]) t =
        (case run_events parse es t of
           None \<Rightarrow> None
         | Some t' \<Rightarrow> worker_resume parse t' i outcome el)" for t
    proof (induction es arbitrary: t)
      case Nil
      show ?case by (simp split: option.splits)
    next
      case (Cons e es)
      obtain j o' el' where "e = Answer j o' el'" by (cases e)
      with Cons show ?case by (simp split: option.splits)
    qed
    ultimately show ?thesis using run by simp
  qed
  with i aw show ?thesis by blast
qed

lemma pool_completes:
  assumes nn: "JNull \<notin> snd ` set entries"
    and run: "run_events parse es (start_pool entries) = Some s"
    and all: "length es = length entries"
  shows "rejection s = None \<and> all_returned s"
proof -
  have inv: "pool_inv entries s" using pool_inv_start run by (rule pool_inv_run)
  have ok: "sites_ok s" using sites_ok_start [OF nn] run by (rule sites_ok_run)
  have an: "answered s = length es"
    using answered_run [OF run] by (simp add: answered_start)
  have acc: "answered s + length (held s) = length (requests s)"
    using inv by (simp add: pool_inv_def)
  from requests_queue_length [OF inv] an acc all have "length (held s) = 0" by linarith
  then have h: "held s = []" by simp
  have "w = Returned" if "w \<in> set (workers s)" for w
  proof -
    from ok that have "worker_ok w" by (simp add: sites_ok_def list_all_iff)
    moreover from h that have "worker_key w = []" by (simp add: held_Nil_iff)
    ultimately show ?thesis by (cases w) auto
  qed
  then have "all_returned s" by (simp add: all_returned_def list_all_iff)
  with ok show ?thesis by (simp add: sites_ok_def)
qed

lemma main_returns:
  assumes "env_config env = Contents raw" "parse raw = Some cfg"
    "Object_entries (sites_of cfg) = Some entries" "entries \<noteq> []"
    "JNull \<notin> snd ` set entries"
    "run_events parse (env_answers env) (start_pool entries) = Some s"
    "length (env_answers env) = length entries"
  shows "main parse env = Some (finish env s)"
  using pool_completes [OF assms(5,6,7)]
  unfolding main_pool [where parse = parse and env = env, OF assms(1-4)]
  by (simp add: assms(6))




text \<open>
  Claim C9. With zero configured endpoints the program prints
  \<open>No api_site entries found.\<close>, issues no request, writes no report and ends with status
  0; nothing else in its surroundings (the network, the clock, the file system) has any
  influence on this run.
\<close>

theorem main_zero_endpoints:
  assumes "env_config env = Contents raw" "parse raw = Some cfg"
    "Object_entries (sites_of cfg) = Some []"
  shows "main parse env =
           Some \<lparr>exit_code = 0, out = [Line (js ''No api_site entries found.'')], err = [],
                 issued = [], collected = [], written = None, escaped = None\<rparr>"
  using main_no_entries_run [where parse = parse and env = env, OF assms]
  by (simp add: no_entries_run_def)

text \<open>
  Claim C10. When the configuration parses and has no \<open>api_site\<close> property, or one whose
  value is falsy, the sites are the empty object, and the program does what it does for
  zero endpoints: it prints the message and ends with status 0, with nothing on the
  error stream.
\<close>

theorem main_without_api_site:
  assumes "env_config env = Contents raw" "parse raw = Some cfg"
    "\<not> truthy_opt (property cfg (js ''api_site''))"
  shows "sites_of cfg = JObj []
         \<and> main parse env =
             Some \<lparr>exit_code = 0, out = [Line (js ''No api_site entries found.'')], err = [],
                   issued = [], collected = [], written = None, escaped = None\<rparr>"
proof -
  from assms(3) have s: "sites_of cfg = JObj []"
    by (simp add: sites_of_def truthy_opt_def split: option.splits)
  then have "Object_entries (sites_of cfg) = Some []" by simp
  from main_no_entries_run [where parse = parse and env = env, OF assms(1,2) this] s
  show ?thesis by (simp add: no_entries_run_def)
qed

section \<open>Failed probes\<close>

text \<open>
  The detail that the specification gives to a failed probe: the message of the error
  when there is one, and otherwise \<open>HTTP\<close> and the status code. \<open>None\<close> is a probe that
  has not failed: a response with a status from 200 to 299 whose body has arrived. For
  an error without a message the script takes its \<open>String\<close>, here its name.
\<close>

definition thrown_detail :: "thrown \<Rightarrow> jsstring" where
  "thrown_detail e =
     (let m = (if err_message e \<noteq> [] then err_message e else error_toString e)
      in if m \<noteq> [] then m else js ''HTTP '' @ decimal 0)"

definition failure_detail :: "fetch_outcome \<Rightarrow> jsstring option" where
  "failure_detail outcome =
     (case outcome of
        NetworkError e \<Rightarrow> Some (thrown_detail e)
      | TimedOut e \<Rightarrow> Some (thrown_detail e)
      | Response st body \<Rightarrow>
          (case body of
             BodyFailed e \<Rightarrow> Some (thrown_detail e)
           | Body t \<Rightarrow> if res_ok st then None else Some (js ''HTTP '' @ decimal st)))"


lemma failure_detail_None:
  assumes "fetchWithTimeout u t outcome = Inr r"
  shows "failure_detail outcome = None \<longleftrightarrow> r_ok r"
proof (cases outcome)
  case (Response st body)
  with assms show ?thesis
    by (cases body) (auto simp: failure_detail_def fetchWithTimeout_def fetch_try_def)
qed (use assms in \<open>auto simp: failure_detail_def fetchWithTimeout_def fetch_try_def\<close>)


section \<open>Example runs\<close>

lemma worker_enter_eq:
  "worker_enter s =
     (case queue s of
        [] \<Rightarrow> (Returned, s)
      | (k, site) # rest \<Rightarrow>
          (Awaiting k site (site_base site) (the (buildTestUrl (site_base site))),
           s\<lparr>queue := rest,
             requests := requests s @
               [fetchWithTimeout_request (the (buildTestUrl (site_base site))) TIMEOUT_MS]\<rparr>))"
proof (cases "queue s")
  case Nil
  then show ?thesis by (simp add: worker_enter_Nil)
next
  case (Cons kv rest)
  obtain k site where kv: "kv = (k, site)" by (cases kv)
  from worker_enter_Cons [of s k site rest] Cons kv show ?thesis by auto
qed

definition example_config :: jsstring where
  "example_config =
     js ''{\"api_site\":{\"a\":{\"api\":\"http://a/\",\"name\":\"A\"},\"b\":{\"api\":\"http://b/\"}}}''"

definition example_entries :: "(jsstring \<times> json) list" where
  "example_entries =
     [(js ''a'', JObj [(js ''api'', JStr (js ''http://a/'')), (js ''name'', JStr (js ''A''))]),
      (js ''b'', JObj [(js ''api'', JStr (js ''http://b/''))])]"

lemma example_config_parse:
  "JSON_parse example_config = Some (JObj [(js ''api_site'', JObj example_entries)])"
  by (simp add: example_config_def example_entries_def JSON_parse_def lex_eval)

lemma example_sites: "Object_entries (sites_of (JObj [(js ''api_site'', JObj example_entries)])) = Some example_entries"
  by (simp add: sites_of_def example_entries_def)

definition example_env :: env where
  "example_env =
     \<lparr>env_config = Contents example_config,
      env_answers =
        [Answer 1 (TimedOut (Thrown (js ''AbortError'') (js ''This operation was aborted''))) 10003,
         Answer 0 (Response 200 (Body (js ''{\"list\":[1,2]}''))) 120],
      env_now = js ''2025-01-01T00:00:00.000Z'',
      env_write_error = None\<rparr>"

lemma start_pool_eq:
  "start_pool entries =
     spawn (spawn (spawn (spawn (spawn (spawn (spawn (spawn (init_state entries))))))))"
  by (simp add: start_pool_def CONCURRENCY_def eval_nat_numeral)

lemmas pool_eval =
  start_pool_eq spawn_def worker_enter_eq init_state_def
  worker_resume_def Let_def record_probe_def case_prod_beta fetchWithTimeout_def fetch_try_def
  raise_def all_returned_def res_ok_def

lemma example_verdict_pass:
  "probe_verdict JSON_parse
     \<lparr>r_ok = True, r_status = 200, r_text = Some (js ''{\"list\":[1,2]}''), r_error = None\<rparr>
     = (V_pass, js ''JSON with list[]'')"
  by (simp add: probe_verdict_def judgeResponseShape_def JSON_parse_def parse_list_example
        isArray_def)

lemma example_verdict_fail:
  "probe_verdict parse
     \<lparr>r_ok = False, r_status = 0, r_text = None,
      r_error = Some (js ''This operation was aborted'')\<rparr>
     = (V_fail, js ''This operation was aborted'')"
  by (simp add: probe_verdict_def)

lemma example_run:
  "\<exists>s. run_events JSON_parse (env_answers example_env) (start_pool example_entries) = Some s
       \<and> rejection s = None \<and> all_returned s
       \<and> map p_key (results s) = [js ''b'', js ''a'']
       \<and> map p_verdict (results s) = [V_fail, V_pass]
       \<and> map p_detail (results s) = [js ''This operation was aborted'', js ''JSON with list[]'']"
proof -
  have "\<exists>s. run_events JSON_parse (env_answers example_env) (start_pool example_entries) = Some s
       \<and> rejection s = None \<and> all_returned s
       \<and> map p_key (results s) = [js ''b'', js ''a'']
       \<and> map p_verdict (results s) =
           [fst (probe_verdict JSON_parse
                   \<lparr>r_ok = False, r_status = 0, r_text = None,
                    r_error = Some (js ''This operation was aborted'')\<rparr>),
            fst (probe_verdict JSON_parse
                   \<lparr>r_ok = True, r_status = 200, r_text = Some (js ''{\"list\":[1,2]}''),
                    r_error = None\<rparr>)]
       \<and> map p_detail (results s) =
           [snd (probe_verdict JSON_parse
                   \<lparr>r_ok = False, r_status = 0, r_text = None,
                    r_error = Some (js ''This operation was aborted'')\<rparr>),
            snd (probe_verdict JSON_parse
                   \<lparr>r_ok = True, r_status = 200, r_text = Some (js ''{\"list\":[1,2]}''),
                    r_error = None\<rparr>)]"
    by (simp add: example_env_def example_entries_def pool_eval)
  then show ?thesis
    by (simp only: example_verdict_pass example_verdict_fail fst_conv snd_conv)
qed

lemma example_main:
  "\<exists>r. main JSON_parse example_env = Some r \<and> exit_code r = 0 \<and> escaped r = None
       \<and> map p_key (collected r) = [js ''b'', js ''a'']
       \<and> map p_verdict (collected r) = [V_fail, V_pass]"
proof -
  from example_run obtain s where
    "run_events JSON_parse (env_answers example_env) (start_pool example_entries) = Some s
       \<and> rejection s = None \<and> all_returned s
       \<and> map p_key (results s) = [js ''b'', js ''a'']
       \<and> map p_verdict (results s) = [V_fail, V_pass]
       \<and> map p_detail (results s) = [js ''This operation was aborted'', js ''JSON with list[]'']"
    by (rule exE)
  then have
    run: "run_events JSON_parse (env_answers example_env) (start_pool example_entries) = Some s"
    and s: "rejection s = None" "all_returned s" "map p_key (results s) = [js ''b'', js ''a'']"
      "map p_verdict (results s) = [V_fail, V_pass]"
    by (rule conjunct1, rule conjunct2 [THEN conjunct1],
        rule conjunct2 [THEN conjunct2, THEN conjunct1],
        rule conjunct2 [THEN conjunct2, THEN conjunct2, THEN conjunct1],
        rule conjunct2 [THEN conjunct2, THEN conjunct2, THEN conjunct2, THEN conjunct1])
  have c: "env_config example_env = Contents example_config"
    and w: "env_write_error example_env = None"
    by (simp_all add: example_env_def)
  have ne: "example_entries \<noteq> []" by (simp add: example_entries_def)
  have "main JSON_parse example_env = Some (finish example_env s)"
    unfolding main_pool [where parse = JSON_parse and env = example_env,
        OF c example_config_parse example_sites ne]
    by (simp add: run s(1,2))
  moreover have "exit_code (finish example_env s) = 0" "escaped (finish example_env s) = None"
    "collected (finish example_env s) = results s"
    using finish_cases [of example_env s] w by auto
  ultimately show ?thesis using s(3,4) by simp
qed

theorem one_result_per_endpoint_witness:
  "\<exists>r. main JSON_parse example_env = Some r \<and> exit_code r = 0
       \<and> map p_verdict (collected r) = [V_fail, V_pass]
       \<and> mset (map p_key (collected r)) = mset [js ''a'', js ''b'']
       \<and> distinct (map p_key (collected r))
       \<and> length (collected r) = 2 \<and> length (issued r) = 2"
proof -
  from example_main obtain r where
    "main JSON_parse example_env = Some r \<and> exit_code r = 0 \<and> escaped r = None
       \<and> map p_key (collected r) = [js ''b'', js ''a'']
       \<and> map p_verdict (collected r) = [V_fail, V_pass]"
    by (rule exE)
  then have r: "main JSON_parse example_env = Some r" "exit_code r = 0"
      "map p_verdict (collected r) = [V_fail, V_pass]"
    by (rule conjunct1, rule conjunct2 [THEN conjunct1],
        rule conjunct2 [THEN conjunct2, THEN conjunct2, THEN conjunct2])
  have c: "env_config example_env = Contents example_config"
    by (simp add: example_env_def)
  from one_result_per_endpoint [OF c example_config_parse example_sites r(1,2)] r
  show ?thesis by (simp add: example_entries_def)
qed






definition example_nine :: "(jsstring \<times> json) list" where
  "example_nine =
     map (\<lambda>k. (js k, JObj [(js ''api'', JStr (js (''http://'' @ k @ ''/api.php/provide/vod'')))]))
       [''s1'', ''s2'', ''s3'', ''s4'', ''s5'', ''s6'', ''s7'', ''s8'', ''s9'']"

definition example_answers :: "event list" where
  "example_answers =
     [Answer 2 (NetworkError (Thrown (js ''TypeError'') (js ''fetch failed''))) 41,
      Answer 5 (Response 500 (Body [])) 90,
      Answer 2 (TimedOut (Thrown (js ''AbortError'') (js ''This operation was aborted''))) 10001]"

lemma example_nine_run:
  "\<exists>s. run_events JSON_parse example_answers (start_pool example_nine) = Some s"
  by (simp add: example_answers_def example_nine_def pool_eval)

theorem in_flight_bounded_witness:
  "CONCURRENCY \<le> length example_nine
   \<and> in_flight (spawn_workers 3 (init_state example_nine)) \<le> CONCURRENCY
   \<and> in_flight (start_pool example_nine) = CONCURRENCY
   \<and> (\<exists>s. run_events JSON_parse example_answers (start_pool example_nine) = Some s
          \<and> in_flight s \<le> CONCURRENCY)"
proof -
  from example_nine_run obtain s where
    run: "run_events JSON_parse example_answers (start_pool example_nine) = Some s"
    by (rule exE)
  have l: "CONCURRENCY \<le> length example_nine"
    by (simp add: CONCURRENCY_def example_nine_def)
  have k: "3 \<le> CONCURRENCY" by (simp add: CONCURRENCY_def)
  from in_flight_bounded [of 3 example_nine JSON_parse example_answers s] run l k
  have "in_flight (spawn_workers 3 (init_state example_nine)) \<le> CONCURRENCY"
    and "in_flight (start_pool example_nine) = CONCURRENCY"
    and "in_flight s \<le> CONCURRENCY"
    by simp_all
  with run l show ?thesis by (intro conjI exI)
qed







lemma example_empty_parse:
  "JSON_parse (js ''{\"api_site\":{}}'') = Some (JObj [(js ''api_site'', JObj [])])"
  by (simp add: JSON_parse_def lex_eval)

theorem main_zero_endpoints_witness:
  "main JSON_parse
     \<lparr>env_config = Contents (js ''{\"api_site\":{}}''), env_answers = [],
      env_now = js ''2025-01-01T00:00:00.000Z'',
      env_write_error = Some (Thrown (js ''Error'') (js ''EACCES: permission denied''))\<rparr>
   = Some \<lparr>exit_code = 0, out = [Line (js ''No api_site entries found.'')], err = [],
           issued = [], collected = [], written = None, escaped = None\<rparr>"
proof -
  have s: "Object_entries (sites_of (JObj [(js ''api_site'', JObj [])])) = Some []"
    by (simp add: sites_of_def)
  show ?thesis
    by (rule main_zero_endpoints [where parse = JSON_parse and cfg = "JObj [(js ''api_site'', JObj [])]"
          and raw = "js ''{\"api_site\":{}}''", OF _ example_empty_parse s]) simp
qed

lemma example_no_api_site_parse:
  "JSON_parse (js ''{\"cache_time\":7200}'') = Some (JObj [(js ''cache_time'', JNum (js ''7200''))])"
  by (simp add: JSON_parse_def lex_eval number_text_def)

theorem main_without_api_site_witness:
  "\<not> truthy_opt (property (JObj [(js ''cache_time'', JNum (js ''7200''))]) (js ''api_site''))
   \<and> main JSON_parse
       \<lparr>env_config = Contents (js ''{\"cache_time\":7200}''), env_answers = [],
        env_now = js ''2025-01-01T00:00:00.000Z'', env_write_error = None\<rparr>
     = Some \<lparr>exit_code = 0, out = [Line (js ''No api_site entries found.'')], err = [],
             issued = [], collected = [], written = None, escaped = None\<rparr>"
proof -
  have n: "\<not> truthy_opt (property (JObj [(js ''cache_time'', JNum (js ''7200''))]) (js ''api_site''))"
    by (simp add: truthy_opt_def)
  have "main JSON_parse
       \<lparr>env_config = Contents (js ''{\"cache_time\":7200}''), env_answers = [],
        env_now = js ''2025-01-01T00:00:00.000Z'', env_write_error = None\<rparr>
     = Some \<lparr>exit_code = 0, out = [Line (js ''No api_site entries found.'')], err = [],
             issued = [], collected = [], written = None, escaped = None\<rparr>"
    by (rule main_without_api_site [where parse = JSON_parse
          and cfg = "JObj [(js ''cache_time'', JNum (js ''7200''))]"
          and raw = "js ''{\"cache_time\":7200}''", OF _ example_no_api_site_parse n,
          THEN conjunct2]) simp
  with n show ?thesis by (intro conjI)
qed

end
